theory Spec2Isabelle
  imports Main "HOL-Library.AList" "HOL-Library.Multiset"
begin

section \<open>Data model\<close>

text \<open>
  The server keeps three kinds of objects: players (PlayerManager.js), teams
  (TeamManager.js) and rooms (RoomManager.js). Connection ids (socket ids), room codes
  and player ids are strings. Team ids are the non-negative numbers \<open>createTeams\<close> hands
  out; a player's \<open>teamId\<close> and \<open>roomId\<close> are \<open>null\<close> until set, modelled by \<open>None\<close>.
  The fields \<open>id\<close>, \<open>name\<close> and \<open>players\<close> occur in several objects and carry a
  suffix here (\<open>_p\<close> player, \<open>_t\<close> team, \<open>_r\<close> room).
\<close>

type_synonym socket_id = string
type_synonym room_code = string

record player =
  id_p :: string
  socketId :: socket_id
  username :: string
  teamId :: "nat option"
  isConnected :: bool
  connectedAt :: nat
  roomId :: "room_code option"

record team =
  id_t :: nat
  name_t :: string
  players_t :: "socket_id list"
  score :: nat

text \<open>
  A JavaScript \<open>Map\<close> iterates in insertion order, \<open>set\<close> on a present key keeps the
  key's position and \<open>delete\<close> removes the entry. This is an association list with
  \<open>AList.update\<close> and \<open>AList.delete\<close>; a well-formed one has distinct keys.
\<close>

type_synonym ('k, 'v) js_map = "('k \<times> 'v) list"

definition map_get :: "('k, 'v) js_map \<Rightarrow> 'k \<Rightarrow> 'v option" where
  "map_get m k = map_of m k"

definition map_has :: "('k, 'v) js_map \<Rightarrow> 'k \<Rightarrow> bool" where
  "map_has m k = (map_of m k \<noteq> None)"

definition map_set :: "('k, 'v) js_map \<Rightarrow> 'k \<Rightarrow> 'v \<Rightarrow> ('k, 'v) js_map" where
  "map_set m k v = AList.update k v m"

definition map_delete :: "('k, 'v) js_map \<Rightarrow> 'k \<Rightarrow> ('k, 'v) js_map" where
  "map_delete m k = AList.delete k m"

definition map_values :: "('k, 'v) js_map \<Rightarrow> 'v list" where
  "map_values m = map snd m"

definition map_size :: "('k, 'v) js_map \<Rightarrow> nat" where
  "map_size m = length m"

record room =
  id_r :: room_code
  hostSocketId :: socket_id
  players_r :: "(socket_id, player) js_map"
  teams :: "team list"
  currentTurn :: nat
  gameStarted :: bool
  turnLocked :: bool
  createdAt :: nat

text \<open>
  The room's \<open>gameState\<close> is an empty placeholder object that no manager reads or
  writes; it is left out. \<open>currentTurn\<close> is a JavaScript number that only ever holds
  small non-negative integers, a \<open>nat\<close> here. The member map of a room holds the same
  player objects as the registry. The room store reads only their \<open>socketId\<close>, which
  nothing changes once a player is created, so the member map keeps its own copy of
  each record and the registry is the one place where \<open>setPlayerTeam\<close> writes.
\<close>

datatype js_error = TypeError

section \<open>PlayerManager\<close>

type_synonym registry = "(socket_id, player) js_map"

definition getPlayer :: "registry \<Rightarrow> socket_id \<Rightarrow> player option" where
  "getPlayer reg sid = map_get reg sid"

definition setPlayerTeam :: "registry \<Rightarrow> socket_id \<Rightarrow> nat \<Rightarrow> registry" where
  "setPlayerTeam reg sid tid =
     (case getPlayer reg sid of
        None \<Rightarrow> reg
      | Some p \<Rightarrow> map_set reg sid (p\<lparr>teamId := Some tid\<rparr>))"

text \<open>
  \<open>createPlayer\<close> builds a new record and stores it under the socket id, whatever the
  registry holds. The id generator and the clock are external: \<open>newId\<close> is the string
  the first \<open>nanoid()\<close> call returns, \<open>nameId\<close> the one a second call returns (made only
  when no username, or an empty one, is given), \<open>now\<close> the clock reading.
\<close>

definition createPlayer ::
  "registry \<Rightarrow> string \<Rightarrow> string \<Rightarrow> nat \<Rightarrow> socket_id \<Rightarrow> string option \<Rightarrow> player \<times> registry" where
  "createPlayer reg newId nameId now sid uname =
     (let p = \<lparr>id_p = newId, socketId = sid,
                username = (case uname of
                              None \<Rightarrow> ''Player-'' @ take 4 nameId
                            | Some u \<Rightarrow> if u = [] then ''Player-'' @ take 4 nameId else u),
                teamId = None, isConnected = True, connectedAt = now, roomId = None\<rparr>
      in (p, map_set reg sid p))"

section \<open>TurnManager\<close>

definition initializeTurns :: "room \<Rightarrow> room" where
  "initializeTurns r = r\<lparr>currentTurn := 0, turnLocked := False\<rparr>"

definition getCurrentTeam :: "room \<Rightarrow> team option" where
  "getCurrentTeam r =
     (if teams r = [] then None
      else Some (teams r ! (currentTurn r mod length (teams r))))"

definition getCurrentTeamId :: "room \<Rightarrow> nat option" where
  "getCurrentTeamId r =
     (case getCurrentTeam r of None \<Rightarrow> None | Some t \<Rightarrow> Some (id_t t))"

text \<open>The result object of \<open>validateTurn\<close>: \<open>{valid: false, message}\<close> or
  \<open>{valid: true, teamId}\<close>.\<close>

datatype validation = Invalid string | Valid nat

definition validateTurn :: "registry \<Rightarrow> room \<Rightarrow> socket_id \<Rightarrow> validation" where
  "validateTurn reg r sid =
     (if \<not> gameStarted r then Invalid ''Game has not started''
      else if turnLocked r then Invalid ''Turn is locked, please wait''
      else case getCurrentTeam r of
        None \<Rightarrow> Invalid ''No teams configured''
      | Some currentTeam \<Rightarrow>
          (case getPlayer reg sid of
             None \<Rightarrow> Invalid ''Player not found''
           | Some p \<Rightarrow>
               if teamId p \<noteq> Some (id_t currentTeam)
               then Invalid (''Not your turn (waiting for '' @ name_t currentTeam @ '')'')
               else Valid (id_t currentTeam)))"

definition lockTurn :: "room \<Rightarrow> room" where
  "lockTurn r = r\<lparr>turnLocked := True\<rparr>"

definition unlockTurn :: "room \<Rightarrow> room" where
  "unlockTurn r = r\<lparr>turnLocked := False\<rparr>"

text \<open>
  \<open>advanceTurn\<close> returns \<open>{success: false, message}\<close> before the game has started.
  Otherwise it increments the counter and unlocks, and only then reads the new
  team's name for the log line: with no teams that read throws a TypeError, after
  the room has been changed. The function returns the room as it is left in
  either case.
\<close>

datatype turn_result = Failure string | Success team nat

definition advanceTurn :: "room \<Rightarrow> (js_error + turn_result) \<times> room" where
  "advanceTurn r =
     (if \<not> gameStarted r then (Inr (Failure ''Game has not started''), r)
      else
        let r' = r\<lparr>currentTurn := currentTurn r + 1, turnLocked := False\<rparr>
        in case getCurrentTeam r' of
             None \<Rightarrow> (Inl TypeError, r')
           | Some newTeam \<Rightarrow> (Inr (Success newTeam (currentTurn r')), r'))"

fun findIndex :: "('a \<Rightarrow> bool) \<Rightarrow> 'a list \<Rightarrow> nat option" where
  "findIndex P [] = None"
| "findIndex P (x # xs) =
     (if P x then Some 0
      else case findIndex P xs of None \<Rightarrow> None | Some i \<Rightarrow> Some (Suc i))"

definition setTurn :: "room \<Rightarrow> nat \<Rightarrow> room" where
  "setTurn r tid =
     (case findIndex (\<lambda>t. id_t t = tid) (teams r) of
        None \<Rightarrow> r
      | Some teamIndex \<Rightarrow> r\<lparr>currentTurn := teamIndex, turnLocked := False\<rparr>)"

definition resetTurns :: "room \<Rightarrow> room" where
  "resetTurns r = r\<lparr>currentTurn := 0, turnLocked := False\<rparr>"

text \<open>Applying \<open>advanceTurn\<close> \<open>n\<close> times to a room, each call on the room the
  previous one left.\<close>

primrec advanceTurn_times :: "nat \<Rightarrow> room \<Rightarrow> room" where
  "advanceTurn_times 0 r = r"
| "advanceTurn_times (Suc n) r = advanceTurn_times n (snd (advanceTurn r))"

section \<open>TeamManager\<close>

text \<open>The result objects \<open>{success: true}\<close> and \<open>{success: false, message}\<close>.\<close>

datatype outcome = Succeeded | Failed string

definition getPlayerTeam :: "team list \<Rightarrow> socket_id \<Rightarrow> team option" where
  "getPlayerTeam ts sid = find (\<lambda>t. sid \<in> set (players_t t)) ts"

definition getTeamById :: "team list \<Rightarrow> nat \<Rightarrow> team option" where
  "getTeamById ts tid = find (\<lambda>t. id_t t = tid) ts"

text \<open>
  \<open>reassignPlayer\<close> first walks all teams and, where \<open>indexOf\<close> finds the socket id,
  splices that one position out (the first occurrence: \<open>remove1\<close>). Only then does it
  look the target team up. \<open>getTeamById\<close> returns the first team object with that id,
  and the push changes that object in the list, so the model updates the list at the
  index of the first match. The function returns the result object together with the
  registry and the team list as the call leaves them.
\<close>

definition reassignPlayer ::
  "registry \<Rightarrow> team list \<Rightarrow> socket_id \<Rightarrow> nat \<Rightarrow> outcome \<times> registry \<times> team list" where
  "reassignPlayer reg ts sid newTeamId =
     (let ts1 = map (\<lambda>t. t\<lparr>players_t := remove1 sid (players_t t)\<rparr>) ts
      in case findIndex (\<lambda>t. id_t t = newTeamId) ts1 of
           Some i \<Rightarrow>
             (Succeeded, setPlayerTeam reg sid newTeamId,
              ts1[i := (ts1 ! i)\<lparr>players_t := players_t (ts1 ! i) @ [sid]\<rparr>])
         | None \<Rightarrow> (Failed ''Team not found'', reg, ts1))"

section \<open>RoomManager\<close>

text \<open>The two limits of \<open>config.js\<close> that the room store reads.\<close>

definition MAX_PLAYERS_PER_ROOM :: nat where
  "MAX_PLAYERS_PER_ROOM = 20"

definition MIN_PLAYERS_TO_START :: nat where
  "MIN_PLAYERS_TO_START = 2"

type_synonym store = "(room_code, room) js_map"

text \<open>
  \<open>createRoom\<close> draws a room code from the external generator and calls itself again
  when the store already has that code, any number of times. The generator is random;
  the model takes the sequence of its draws \<open>gen 0, gen 1, ...\<close> and the number \<open>n\<close> of
  draws made so far. \<open>now\<close> is the clock reading for \<open>createdAt\<close>. The result is the
  new room and the store that holds it; \<open>None\<close> stands for a call that never returns.
  (The engine's call stack limit, which would end such a recursion with a RangeError,
  is not part of the model.)
\<close>

definition newRoom :: "room_code \<Rightarrow> socket_id \<Rightarrow> nat \<Rightarrow> room" where
  "newRoom rid hostId now =
     \<lparr>id_r = rid, hostSocketId = hostId, players_r = [], teams = [], currentTurn = 0,
      gameStarted = False, turnLocked = False, createdAt = now\<rparr>"

partial_function (option) createRoom ::
  "(nat \<Rightarrow> room_code) \<Rightarrow> nat \<Rightarrow> nat \<Rightarrow> store \<Rightarrow> socket_id \<Rightarrow> (room \<times> store) option" where
  "createRoom gen n now rooms hostId =
     (if map_has rooms (gen n) then createRoom gen (n + 1) now rooms hostId
      else Some (newRoom (gen n) hostId now, map_set rooms (gen n) (newRoom (gen n) hostId now)))"

definition getRoom :: "store \<Rightarrow> room_code \<Rightarrow> room option" where
  "getRoom rooms rid = map_get rooms rid"

definition roomExists :: "store \<Rightarrow> room_code \<Rightarrow> bool" where
  "roomExists rooms rid = map_has rooms rid"

text \<open>
  The store holds references to room objects, so a change to a room found by
  \<open>getRoom\<close> is a change to the stored room: the model writes the changed room back
  under its code, which keeps its place in the store.
\<close>

datatype room_result = RoomFailed string | RoomOk room

definition addPlayerToRoom :: "store \<Rightarrow> room_code \<Rightarrow> player \<Rightarrow> room_result \<times> store" where
  "addPlayerToRoom rooms rid p =
     (case getRoom rooms rid of
        None \<Rightarrow> (RoomFailed ''Room not found'', rooms)
      | Some r \<Rightarrow>
          if gameStarted r then (RoomFailed ''Game already started'', rooms)
          else if map_size (players_r r) \<ge> MAX_PLAYERS_PER_ROOM
          then (RoomFailed ''Room is full'', rooms)
          else
            let r' = r\<lparr>players_r := map_set (players_r r) (socketId p) p\<rparr>
            in (RoomOk r', map_set rooms rid r'))"

definition deleteRoom :: "store \<Rightarrow> room_code \<Rightarrow> store" where
  "deleteRoom rooms rid = map_delete rooms rid"

text \<open>
  The result of \<open>removePlayerFromRoom\<close> is \<open>{success: false, shouldDeleteRoom: false}\<close>
  for an unknown room and \<open>{success: true, shouldDeleteRoom, room}\<close> otherwise. The new
  host is the first value of the member map, and its \<open>socketId\<close> field is what the room
  records.
\<close>

datatype remove_result = NotRemoved | Removed bool room

definition removePlayerFromRoom ::
  "store \<Rightarrow> room_code \<Rightarrow> socket_id \<Rightarrow> remove_result \<times> store" where
  "removePlayerFromRoom rooms rid sid =
     (case getRoom rooms rid of
        None \<Rightarrow> (NotRemoved, rooms)
      | Some r \<Rightarrow>
          let r1 = r\<lparr>players_r := map_delete (players_r r) sid,
                     teams := map (\<lambda>t. t\<lparr>players_t := remove1 sid (players_t t)\<rparr>) (teams r)\<rparr>;
              shouldDeleteRoom = (map_size (players_r r1) = 0)
          in if shouldDeleteRoom then (Removed shouldDeleteRoom r1, deleteRoom rooms rid)
             else if hostSocketId r1 = sid \<and> map_size (players_r r1) > 0
             then
               let newHost = hd (map_values (players_r r1));
                   r2 = r1\<lparr>hostSocketId := socketId newHost\<rparr>
               in (Removed shouldDeleteRoom r2, map_set rooms rid r2)
             else (Removed shouldDeleteRoom r1, map_set rooms rid r1))"

definition startGame :: "store \<Rightarrow> room_code \<Rightarrow> room_result \<times> store" where
  "startGame rooms rid =
     (case getRoom rooms rid of
        None \<Rightarrow> (RoomFailed ''Room not found'', rooms)
      | Some r \<Rightarrow>
          if gameStarted r then (RoomFailed ''Game already started'', rooms)
          else if map_size (players_r r) < MIN_PLAYERS_TO_START
          then (RoomFailed ''Need at least 2 players'', rooms)
          else
            let r' = r\<lparr>gameStarted := True\<rparr>
            in (RoomOk r', map_set rooms rid r'))"

text \<open>The invariant of claim C3: every stored room has at least one member.\<close>

definition rooms_populated :: "store \<Rightarrow> bool" where
  "rooms_populated rooms = list_all (\<lambda>(rid, r). map_size (players_r r) \<ge> 1) rooms"

section \<open>TeamManager: assigning and balancing\<close>

text \<open>
  \<open>shuffleArray\<close> is the Fisher-Yates loop: for \<open>i\<close> from the last index down to 1 it
  draws \<open>j = floor (random () * (i + 1))\<close>, an index between 0 and \<open>i\<close>, and swaps the
  entries at \<open>i\<close> and \<open>j\<close>. The random source is outside the program: \<open>rnd i\<close> stands
  for the number drawn in the pass with index \<open>i\<close>, and it is reduced into the range
  \<open>0..i\<close> that the draw has.
\<close>

primrec shuffle_loop :: "(nat \<Rightarrow> nat) \<Rightarrow> nat \<Rightarrow> 'a list \<Rightarrow> 'a list" where
  "shuffle_loop rnd 0 shuffled = shuffled"
| "shuffle_loop rnd (Suc k) shuffled =
     (let i = Suc k; j = rnd i mod (i + 1)
      in shuffle_loop rnd k (shuffled[i := shuffled ! j, j := shuffled ! i]))"

definition shuffleArray :: "(nat \<Rightarrow> nat) \<Rightarrow> 'a list \<Rightarrow> 'a list" where
  "shuffleArray rnd array = shuffle_loop rnd (length array - 1) array"

text \<open>
  \<open>assignPlayersToTeams\<close> empties every team and then walks the shuffled players with
  their index: the player at \<open>index\<close> is pushed on the team at \<open>index % teams.length\<close>
  and the registry is told. With no teams that index is \<open>NaN\<close>, the team is
  \<open>undefined\<close>, and reading its \<open>players\<close> throws a TypeError at the first player.
\<close>

fun distribute :: "nat \<Rightarrow> player list \<Rightarrow> registry \<Rightarrow> team list \<Rightarrow> registry \<times> team list" where
  "distribute index [] reg ts = (reg, ts)"
| "distribute index (p # ps) reg ts =
     (let teamIndex = index mod length ts;
          team = ts ! teamIndex
      in distribute (index + 1) ps
           (setPlayerTeam reg (socketId p) (id_t team))
           (ts[teamIndex := team\<lparr>players_t := players_t team @ [socketId p]\<rparr>]))"

definition assignPlayersToTeams ::
  "(nat \<Rightarrow> nat) \<Rightarrow> registry \<Rightarrow> (socket_id, player) js_map \<Rightarrow> team list
     \<Rightarrow> js_error + registry \<times> team list" where
  "assignPlayersToTeams rnd reg playersMap ts =
     (let players = map_values playersMap;
          shuffledPlayers = shuffleArray rnd players;
          ts0 = map (\<lambda>t. t\<lparr>players_t := []\<rparr>) ts
      in if ts0 = [] \<and> shuffledPlayers \<noteq> [] then Inl TypeError
         else Inr (distribute 0 shuffledPlayers reg ts0))"

text \<open>
  \<open>balanceTeams\<close> sorts a copy of the team array by member count. The copy holds the
  same team objects, so the model sorts the indices of the teams; the sort is stable,
  as \<open>Array.prototype.sort\<close> is. One pass through the body either throws (the sorted
  array of an empty team list has no element 0), returns the teams, or moves the last
  member of the largest team to the end of the smallest team, records the new team in
  the registry and calls \<open>balanceTeams\<close> again.
\<close>

definition sortedTeams :: "team list \<Rightarrow> nat list" where
  "sortedTeams ts = sort_key (\<lambda>i. length (players_t (ts ! i))) [0..<length ts]"

datatype balance_pass = Throws js_error | Returns | Recurses registry "team list"

definition balance_pass :: "registry \<Rightarrow> team list \<Rightarrow> balance_pass" where
  "balance_pass reg ts =
     (if sortedTeams ts = [] then Throws TypeError
      else
        let si = hd (sortedTeams ts);
            li = last (sortedTeams ts);
            minSize = length (players_t (ts ! si));
            maxSize = length (players_t (ts ! li))
        in if int maxSize - int minSize > 1 then
             (if length (players_t (ts ! li)) > length (players_t (ts ! si)) + 1 then
                let playerToMove = last (players_t (ts ! li));
                    ts1 = ts[li := (ts ! li)\<lparr>players_t := butlast (players_t (ts ! li))\<rparr>];
                    ts2 = ts1[si := (ts1 ! si)\<lparr>players_t := players_t (ts1 ! si) @ [playerToMove]\<rparr>]
                in Recurses (setPlayerTeam reg playerToMove (id_t (ts ! si))) ts2
              else Returns)
           else Returns)"

text \<open>The member counts, as \<open>getTeamStats\<close> computes them, and the sum of their
  squares, which every move of \<open>balanceTeams\<close> lowers.\<close>

definition teamSizes :: "team list \<Rightarrow> nat list" where
  "teamSizes ts = map (\<lambda>t. length (players_t t)) ts"

definition sum_squares :: "team list \<Rightarrow> nat" where
  "sum_squares ts = sum_list (map (\<lambda>n. n * n) (teamSizes ts))"

lemma sum_list_update_nat:
  "k < length xs \<Longrightarrow> sum_list (xs[k := x]) + xs ! k = sum_list xs + (x :: nat)"
proof (induction xs arbitrary: k)
  case Nil
  then show ?case by simp
next
  case (Cons a xs)
  then show ?case by (cases k) auto
qed

lemma sortedTeams_props:
  assumes "ts \<noteq> []"
  shows "sortedTeams ts \<noteq> []"
    and "hd (sortedTeams ts) < length ts"
    and "last (sortedTeams ts) < length ts"
    and "\<forall>i<length ts. length (players_t (ts ! hd (sortedTeams ts))) \<le> length (players_t (ts ! i))"
    and "\<forall>i<length ts. length (players_t (ts ! i)) \<le> length (players_t (ts ! last (sortedTeams ts)))"
proof -
  let ?f = "\<lambda>i. length (players_t (ts ! i))"
  let ?s = "sortedTeams ts"
  have set_s: "set ?s = {0..<length ts}"
    by (simp add: sortedTeams_def)
  have "length ?s = length ts"
    by (simp add: sortedTeams_def)
  with assms show ne: "?s \<noteq> []" by auto
  have srt: "sorted (map ?f ?s)"
    by (simp add: sortedTeams_def)
  from ne have "hd ?s \<in> set ?s" and "last ?s \<in> set ?s" by simp_all
  with set_s show "hd ?s < length ts" and "last ?s < length ts" by auto
  show "\<forall>i<length ts. ?f (hd ?s) \<le> ?f i"
  proof (intro allI impI)
    fix i assume "i < length ts"
    with set_s have i: "i \<in> set ?s" by simp
    from ne obtain x xs where s: "?s = x # xs" by (cases ?s) auto
    with srt have "\<forall>y\<in>set xs. ?f x \<le> ?f y" by simp
    with i s show "?f (hd ?s) \<le> ?f i" by auto
  qed
  show "\<forall>i<length ts. ?f i \<le> ?f (last ?s)"
  proof (intro allI impI)
    fix i assume "i < length ts"
    with set_s have i: "i \<in> set ?s" by simp
    from ne have s: "?s = butlast ?s @ [last ?s]" by simp
    from srt have "sorted (map ?f (butlast ?s @ [last ?s]))" using s by simp
    then have "\<forall>y\<in>set (butlast ?s). ?f y \<le> ?f (last ?s)"
      by (simp add: sorted_append)
    moreover from i s have "i \<in> set (butlast ?s) \<or> i = last ?s"
      by (metis Un_iff empty_iff empty_set set_ConsD set_append)
    ultimately show "?f i \<le> ?f (last ?s)" by auto
  qed
qed

lemma balance_pass_Recurses:
  assumes "balance_pass reg ts = Recurses reg' ts'"
  defines "si \<equiv> hd (sortedTeams ts)" and "li \<equiv> last (sortedTeams ts)"
  shows "ts \<noteq> []"
    and "length (players_t (ts ! si)) + 1 < length (players_t (ts ! li))"
    and "ts' = ts[li := (ts ! li)\<lparr>players_t := butlast (players_t (ts ! li))\<rparr>,
                  si := (ts ! si)\<lparr>players_t := players_t (ts ! si) @ [last (players_t (ts ! li))]\<rparr>]"
    and "reg' = setPlayerTeam reg (last (players_t (ts ! li))) (id_t (ts ! si))"
proof -
  from assms(1) have ne: "sortedTeams ts \<noteq> []"
    by (auto simp: balance_pass_def)
  then show "ts \<noteq> []"
    by (auto simp: sortedTeams_def)
  from assms(1) ne show gt: "length (players_t (ts ! si)) + 1 < length (players_t (ts ! li))"
    by (auto simp: balance_pass_def Let_def si_def li_def split: if_splits)
  then have neq: "li \<noteq> si" by auto
  from assms(1) ne gt neq
  show "ts' = ts[li := (ts ! li)\<lparr>players_t := butlast (players_t (ts ! li))\<rparr>,
                  si := (ts ! si)\<lparr>players_t := players_t (ts ! si) @ [last (players_t (ts ! li))]\<rparr>]"
    by (auto simp: balance_pass_def Let_def si_def li_def split: if_splits)
  from assms(1) ne gt
  show "reg' = setPlayerTeam reg (last (players_t (ts ! li))) (id_t (ts ! si))"
    by (auto simp: balance_pass_def Let_def si_def li_def split: if_splits)
qed

lemma teamSizes_update:
  "teamSizes (ts[i := t]) = (teamSizes ts)[i := length (players_t t)]"
  by (simp add: teamSizes_def map_update)

lemma sum_squares_move:
  assumes "li < length xs" and "si < length xs" and "xs ! si + 1 < xs ! li"
  shows "sum_list (map (\<lambda>n. n * n) (xs[li := xs ! li - 1, si := xs ! si + 1])) + 2
    \<le> sum_list (map (\<lambda>n. n * n) (xs :: nat list))"
proof -
  let ?sq = "\<lambda>n::nat. n * n"
  let ?ys = "map ?sq xs"
  from assms(3) have neq: "li \<noteq> si" by auto
  obtain c where c: "xs ! li = Suc c" using assms(3) by (cases "xs ! li") auto
  with assms(3) have bc: "xs ! si < c" by simp
  have m: "map ?sq (xs[li := xs ! li - 1, si := xs ! si + 1])
      = ?ys[li := ?sq c, si := ?sq (xs ! si + 1)]"
    by (simp add: map_update c)
  have 1: "sum_list (?ys[li := ?sq c]) + ?sq (Suc c) = sum_list ?ys + ?sq c"
    using sum_list_update_nat [of li ?ys "?sq c"] assms(1) c by simp
  have "sum_list (?ys[li := ?sq c, si := ?sq (xs ! si + 1)]) + (?ys[li := ?sq c]) ! si
      = sum_list (?ys[li := ?sq c]) + ?sq (xs ! si + 1)"
    using sum_list_update_nat [of si "?ys[li := ?sq c]" "?sq (xs ! si + 1)"] assms(2) by simp
  then have 2: "sum_list (?ys[li := ?sq c, si := ?sq (xs ! si + 1)]) + ?sq (xs ! si)
      = sum_list (?ys[li := ?sq c]) + ?sq (xs ! si + 1)"
    using neq assms(2) by simp
  define b where "b = xs ! si"
  define A where "A = sum_list ?ys"
  define A1 where "A1 = sum_list (?ys[li := ?sq c])"
  define A2 where "A2 = sum_list (?ys[li := ?sq c, si := ?sq (xs ! si + 1)])"
  from 1 have e1: "A1 + (c * c + 2 * c + 1) = A + c * c"
    by (simp add: A_def A1_def algebra_simps)
  from 2 have e2: "A2 + b * b = A1 + (b * b + 2 * b + 1)"
    by (simp add: A1_def A2_def b_def algebra_simps)
  from bc have "b < c" by (simp add: b_def)
  with e1 e2 have "A2 + 2 \<le> A" by linarith
  then show ?thesis unfolding m A_def A2_def .
qed

lemma balance_pass_sizes:
  assumes "balance_pass reg ts = Recurses reg' ts'"
  defines "si \<equiv> hd (sortedTeams ts)" and "li \<equiv> last (sortedTeams ts)"
  shows "teamSizes ts' = (teamSizes ts)[li := teamSizes ts ! li - 1, si := teamSizes ts ! si + 1]"
    and "si < length (teamSizes ts)" and "li < length (teamSizes ts)"
    and "teamSizes ts ! si + 1 < teamSizes ts ! li"
proof -
  note r = balance_pass_Recurses [OF assms(1), folded si_def li_def]
  from r(1) have b: "si < length ts" "li < length ts"
    by (simp_all add: si_def li_def sortedTeams_props)
  then show "si < length (teamSizes ts)" and "li < length (teamSizes ts)"
    by (simp_all add: teamSizes_def)
  from b r(2) show "teamSizes ts ! si + 1 < teamSizes ts ! li"
    by (simp add: teamSizes_def)
  from b show "teamSizes ts' = (teamSizes ts)[li := teamSizes ts ! li - 1, si := teamSizes ts ! si + 1]"
    by (simp add: r(3) teamSizes_update) (simp add: teamSizes_def)
qed

lemma balance_pass_decreases:
  assumes "balance_pass reg ts = Recurses reg' ts'"
  shows "sum_squares ts' + 2 \<le> sum_squares ts"
  unfolding sum_squares_def balance_pass_sizes(1) [OF assms]
  using balance_pass_sizes(2-4) [OF assms]
  by (intro sum_squares_move) simp_all

text \<open>
  \<open>balanceTeams\<close> repeats the pass until it returns or throws. Each repetition
  lowers the sum of the squared member counts, so the recursion ends.
\<close>

function balanceTeams :: "registry \<Rightarrow> team list \<Rightarrow> js_error + registry \<times> team list" where
  "balanceTeams reg ts =
     (case balance_pass reg ts of
        Throws e \<Rightarrow> Inl e
      | Returns \<Rightarrow> Inr (reg, ts)
      | Recurses reg' ts' \<Rightarrow> balanceTeams reg' ts')"
  by pat_completeness auto
termination
proof (relation "measure (\<lambda>(reg, ts). sum_squares ts)")
  show "wf (measure (\<lambda>(reg, ts). sum_squares ts))" by simp
next
  fix reg ts reg' ts'
  assume "balance_pass reg ts = Recurses reg' ts'"
  then have "sum_squares ts' + 2 \<le> sum_squares ts" by (rule balance_pass_decreases)
  then show "((reg', ts'), (reg, ts)) \<in> measure (\<lambda>(reg, ts). sum_squares ts)" by simp
qed

text \<open>The number of players \<open>balanceTeams\<close> moves: the depth of its recursion.\<close>

function balance_moves :: "registry \<Rightarrow> team list \<Rightarrow> nat" where
  "balance_moves reg ts =
     (case balance_pass reg ts of
        Throws e \<Rightarrow> 0
      | Returns \<Rightarrow> 0
      | Recurses reg' ts' \<Rightarrow> Suc (balance_moves reg' ts'))"
  by pat_completeness auto
termination
proof (relation "measure (\<lambda>(reg, ts). sum_squares ts)")
  show "wf (measure (\<lambda>(reg, ts). sum_squares ts))" by simp
next
  fix reg ts reg' ts'
  assume "balance_pass reg ts = Recurses reg' ts'"
  then have "sum_squares ts' + 2 \<le> sum_squares ts" by (rule balance_pass_decreases)
  then show "((reg', ts'), (reg, ts)) \<in> measure (\<lambda>(reg, ts). sum_squares ts)" by simp
qed

text \<open>
  \<open>getTeamStats\<close> reports \<open>isBalanced\<close>: the largest member count minus the smallest
  is at most 1 (with no teams \<open>Math.max()\<close> is \<open>-Infinity\<close> and \<open>Math.min()\<close> is
  \<open>Infinity\<close>, and the comparison holds).
\<close>

definition isBalanced :: "team list \<Rightarrow> bool" where
  "isBalanced ts =
     (ts = [] \<or> int (Max (set (teamSizes ts))) - int (Min (set (teamSizes ts))) \<le> 1)"

definition size_gap :: "team list \<Rightarrow> nat" where
  "size_gap ts = Max (set (teamSizes ts)) - Min (set (teamSizes ts))"

text \<open>
  The state of the teams after \<open>n\<close> players have been dealt out in turn to \<open>T\<close> empty
  teams: every team has \<open>n div T\<close> members, and the first \<open>n mod T\<close> teams one more.
\<close>

definition round_robin :: "nat \<Rightarrow> team list \<Rightarrow> bool" where
  "round_robin n ts \<longleftrightarrow>
     (\<forall>k<length ts. length (players_t (ts ! k)) =
        n div length ts + (if k < n mod length ts then 1 else 0))"

section \<open>Example states\<close>

text \<open>Concrete players, teams and rooms on which the theorems below are evaluated.\<close>

definition alice :: player where
  "alice = \<lparr>id_p = ''k3x9q2ab'', socketId = ''s1'', username = ''Player-a1b2'',
            teamId = None, isConnected = True, connectedAt = 0, roomId = Some ''ABC234''\<rparr>"

definition red :: team where
  "red = \<lparr>id_t = 0, name_t = ''Red'', players_t = [''s1''], score = 0\<rparr>"

definition blue :: team where
  "blue = \<lparr>id_t = 1, name_t = ''Blue'', players_t = [''s2''], score = 0\<rparr>"

definition room_no_teams :: room where
  "room_no_teams = \<lparr>id_r = ''ABC234'', hostSocketId = ''s1'',
     players_r = [(''s1'', alice)], teams = [], currentTurn = 0,
     gameStarted = True, turnLocked = False, createdAt = 0\<rparr>"

definition bob :: player where
  "bob = \<lparr>id_p = ''m4n8p1cd'', socketId = ''s2'', username = ''Player-c3d4'',
          teamId = Some 1, isConnected = True, connectedAt = 1, roomId = Some ''ABC234''\<rparr>"

definition carol :: player where
  "carol = \<lparr>id_p = ''z7y6x5ef'', socketId = ''s3'', username = ''Player-e5f6'',
          teamId = Some 0, isConnected = True, connectedAt = 2, roomId = Some ''ABC234''\<rparr>"

definition room_playing :: room where
  "room_playing = \<lparr>id_r = ''ABC234'', hostSocketId = ''s3'',
     players_r = [(''s3'', carol), (''s2'', bob)], teams = [red, blue], currentTurn = 5,
     gameStarted = True, turnLocked = False, createdAt = 0\<rparr>"

definition red_twice :: team where
  "red_twice = \<lparr>id_t = 0, name_t = ''Red'', players_t = [''s1'', ''s1''], score = 0\<rparr>"

definition always_ABC234 :: "nat \<Rightarrow> room_code" where
  "always_ABC234 n = ''ABC234''"

definition example_codes :: "nat \<Rightarrow> room_code" where
  "example_codes n = (if n < 2 then ''ABC234'' else ''XYZ789'')"

definition store_empty_room :: store where
  "store_empty_room = [(''ABC234'', newRoom ''ABC234'' ''s1'' 0)]"

definition room_lobby :: room where
  "room_lobby = \<lparr>id_r = ''ABC234'', hostSocketId = ''s3'',
     players_r = [(''s3'', carol), (''s2'', bob)], teams = [], currentTurn = 0,
     gameStarted = False, turnLocked = False, createdAt = 0\<rparr>"

definition room_solo :: room where
  "room_solo = \<lparr>id_r = ''XYZ789'', hostSocketId = ''s1'',
     players_r = [(''s1'', alice)], teams = [], currentTurn = 0,
     gameStarted = False, turnLocked = False, createdAt = 3\<rparr>"

definition team_of :: "nat \<Rightarrow> socket_id list \<Rightarrow> team" where
  "team_of i ps = \<lparr>id_t = i, name_t = ''Team'', players_t = ps, score = 0\<rparr>"

definition draw_zero :: "nat \<Rightarrow> nat" where
  "draw_zero i = 0"

definition three_players :: "(socket_id, player) js_map" where
  "three_players = [(''s3'', carol), (''s2'', bob), (''s1'', alice)]"

section \<open>Turn validation\<close>

text \<open>
  Claim C1 as stated fails. A started, unlocked room whose team list is empty has no
  current team, so \<open>getCurrentTeamId\<close> is \<open>null\<close>; a registered player who has no
  team yet has \<open>teamId = null\<close> as well. The four conditions of the claim hold (started,
  not locked, known player, equal team ids), yet \<open>validateTurn\<close> rejects, with a
  fifth reason that the claim does not list.
\<close>

theorem validateTurn_no_teams_counterexample:
  "gameStarted room_no_teams \<and> \<not> turnLocked room_no_teams
   \<and> getPlayer [(''s1'', alice)] ''s1'' = Some alice
   \<and> teamId alice = getCurrentTeamId room_no_teams
   \<and> validateTurn [(''s1'', alice)] room_no_teams ''s1'' = Invalid ''No teams configured''"
  by (simp add: room_no_teams_def alice_def validateTurn_def getCurrentTeam_def
      getCurrentTeamId_def getPlayer_def map_get_def)

text \<open>
  Claim C1, amended. \<open>validateTurn\<close> reads the registry and the room and changes
  neither (it is a function of them). It accepts with team id \<open>tid\<close> if and only if
  five conditions hold: the game has started, the turn is not locked, the team list is
  not empty, the connection id resolves to a registered player whose team id equals the
  current team's id, and \<open>tid\<close> is that id. Otherwise it rejects with the reason of the
  first failing check, in this order: not started, locked, no teams configured, player
  not found, not this player's turn (the message names the current team).
\<close>

theorem validateTurn_characterisation:
  "(validateTurn reg r sid = Valid tid \<longleftrightarrow>
      gameStarted r \<and> \<not> turnLocked r \<and> teams r \<noteq> []
      \<and> (\<exists>p. getPlayer reg sid = Some p \<and> teamId p = getCurrentTeamId r)
      \<and> getCurrentTeamId r = Some tid)
   \<and> (\<not> gameStarted r \<longrightarrow> validateTurn reg r sid = Invalid ''Game has not started'')
   \<and> (gameStarted r \<and> turnLocked r \<longrightarrow>
        validateTurn reg r sid = Invalid ''Turn is locked, please wait'')
   \<and> (gameStarted r \<and> \<not> turnLocked r \<and> teams r = [] \<longrightarrow>
        validateTurn reg r sid = Invalid ''No teams configured'')
   \<and> (gameStarted r \<and> \<not> turnLocked r \<and> teams r \<noteq> [] \<and> getPlayer reg sid = None \<longrightarrow>
        validateTurn reg r sid = Invalid ''Player not found'')
   \<and> (gameStarted r \<and> \<not> turnLocked r \<and> teams r \<noteq> []
        \<and> getPlayer reg sid = Some p \<and> teamId p \<noteq> getCurrentTeamId r \<longrightarrow>
        (\<exists>t. getCurrentTeam r = Some t \<and> validateTurn reg r sid =
           Invalid (''Not your turn (waiting for '' @ name_t t @ '')'')))"
  by (auto simp: validateTurn_def getCurrentTeam_def getCurrentTeamId_def
      split: option.splits)

theorem validateTurn_characterisation_witness:
  "validateTurn [(''s3'', carol), (''s2'', bob)] room_playing ''s2'' = Valid 1
   \<and> validateTurn [(''s3'', carol), (''s2'', bob)] (room_playing\<lparr>gameStarted := False\<rparr>) ''s2''
       = Invalid ''Game has not started''
   \<and> validateTurn [(''s3'', carol), (''s2'', bob)] (lockTurn room_playing) ''s2''
       = Invalid ''Turn is locked, please wait''
   \<and> validateTurn [(''s3'', carol), (''s2'', bob)] (room_playing\<lparr>teams := []\<rparr>) ''s2''
       = Invalid ''No teams configured''
   \<and> validateTurn [(''s3'', carol), (''s2'', bob)] room_playing ''s9''
       = Invalid ''Player not found''
   \<and> validateTurn [(''s3'', carol), (''s2'', bob)] room_playing ''s3''
       = Invalid ''Not your turn (waiting for Blue)''"
proof -
  let ?reg = "[(''s3'', carol), (''s2'', bob)]"
  have tid: "getCurrentTeamId room_playing = Some 1"
    and cur: "getCurrentTeam room_playing = Some blue"
    by code_simp+
  have st: "gameStarted room_playing" "\<not> turnLocked room_playing" "teams room_playing \<noteq> []"
    by (simp_all add: room_playing_def)
  have pb: "getPlayer ?reg ''s2'' = Some bob" and pc: "getPlayer ?reg ''s3'' = Some carol"
    and pn: "getPlayer ?reg ''s9'' = None"
    by (simp_all add: getPlayer_def map_get_def)
  have a: "validateTurn ?reg room_playing ''s2'' = Valid 1"
    using validateTurn_characterisation [of ?reg room_playing "''s2''" 1 bob] st pb tid
    by (simp add: bob_def)
  have b: "validateTurn ?reg (room_playing\<lparr>gameStarted := False\<rparr>) ''s2''
       = Invalid ''Game has not started''"
    using validateTurn_characterisation [of ?reg "room_playing\<lparr>gameStarted := False\<rparr>" "''s2''" 1 bob]
    by simp
  have c: "validateTurn ?reg (lockTurn room_playing) ''s2'' = Invalid ''Turn is locked, please wait''"
    using validateTurn_characterisation [of ?reg "lockTurn room_playing" "''s2''" 1 bob] st
    by (simp add: lockTurn_def)
  have d: "validateTurn ?reg (room_playing\<lparr>teams := []\<rparr>) ''s2'' = Invalid ''No teams configured''"
    using validateTurn_characterisation [of ?reg "room_playing\<lparr>teams := []\<rparr>" "''s2''" 1 bob] st
    by simp
  have e: "validateTurn ?reg room_playing ''s9'' = Invalid ''Player not found''"
    using validateTurn_characterisation [of ?reg room_playing "''s9''" 1 bob] st pn
    by simp
  have f: "validateTurn ?reg room_playing ''s3'' = Invalid ''Not your turn (waiting for Blue)''"
    using validateTurn_characterisation [of ?reg room_playing "''s3''" 1 carol] st pc tid cur
    by (simp add: carol_def blue_def)
  from a b c d e f show ?thesis by blast
qed

section \<open>Turn rotation\<close>

lemma advanceTurn_room:
  "gameStarted r \<Longrightarrow>
   snd (advanceTurn r) = r\<lparr>currentTurn := currentTurn r + 1, turnLocked := False\<rparr>"
  by (simp add: advanceTurn_def Let_def split: option.splits)

lemma advanceTurn_times_fields:
  "gameStarted r \<Longrightarrow>
   gameStarted (advanceTurn_times n r) \<and> teams (advanceTurn_times n r) = teams r
   \<and> currentTurn (advanceTurn_times n r) = currentTurn r + n"
  by (induction n arbitrary: r) (simp_all add: advanceTurn_room)

text \<open>
  Claim C7. In a started room with a non-empty team list of length \<open>T\<close>, applying
  \<open>advanceTurn\<close> \<open>T\<close> times brings the current team back to what it was. A single
  application succeeds, returns the team at index \<open>(k + 1) mod T\<close> for the counter
  \<open>k\<close> together with the new counter \<open>k + 1\<close>, unlocks the turn, and moves the current
  team from index \<open>k mod T\<close> to index \<open>(k mod T + 1) mod T\<close>.
\<close>

theorem advanceTurn_cycle:
  assumes "gameStarted r" and "teams r \<noteq> []"
  shows "getCurrentTeam (advanceTurn_times (length (teams r)) r) = getCurrentTeam r
    \<and> advanceTurn r =
        (Inr (Success (teams r ! ((currentTurn r + 1) mod length (teams r))) (currentTurn r + 1)),
         r\<lparr>currentTurn := currentTurn r + 1, turnLocked := False\<rparr>)
    \<and> getCurrentTeam (snd (advanceTurn r)) =
        Some (teams r ! ((currentTurn r mod length (teams r) + 1) mod length (teams r)))"
proof -
  have "getCurrentTeam (advanceTurn_times (length (teams r)) r) = getCurrentTeam r"
    using assms advanceTurn_times_fields [of r "length (teams r)"]
    by (simp add: getCurrentTeam_def)
  moreover have "advanceTurn r =
        (Inr (Success (teams r ! ((currentTurn r + 1) mod length (teams r))) (currentTurn r + 1)),
         r\<lparr>currentTurn := currentTurn r + 1, turnLocked := False\<rparr>)"
    using assms by (simp add: advanceTurn_def getCurrentTeam_def)
  moreover have "getCurrentTeam (snd (advanceTurn r)) =
        Some (teams r ! ((currentTurn r mod length (teams r) + 1) mod length (teams r)))"
    using assms by (simp add: advanceTurn_room getCurrentTeam_def mod_Suc_eq)
  ultimately show ?thesis by blast
qed

theorem advanceTurn_cycle_witness:
  "gameStarted room_playing \<and> teams room_playing \<noteq> []
   \<and> getCurrentTeam room_playing = Some blue
   \<and> getCurrentTeam (snd (advanceTurn room_playing)) = Some red
   \<and> getCurrentTeam (advanceTurn_times 2 room_playing) = Some blue"
proof -
  have st: "gameStarted room_playing" "teams room_playing \<noteq> []"
    by (simp_all add: room_playing_def)
  have len: "length (teams room_playing) = 2" and k: "currentTurn room_playing = 5"
    and ts: "teams room_playing = [red, blue]"
    by (simp_all add: room_playing_def)
  have cur: "getCurrentTeam room_playing = Some blue"
    by code_simp
  have i1: "teams room_playing ! ((currentTurn room_playing mod length (teams room_playing) + 1)
      mod length (teams room_playing)) = red"
    by code_simp
  note cyc = advanceTurn_cycle [OF st]
  have two: "getCurrentTeam (advanceTurn_times 2 room_playing) = Some blue"
    using cyc [THEN conjunct1] cur len by simp
  have one: "getCurrentTeam (snd (advanceTurn room_playing)) = Some red"
    using cyc [THEN conjunct2, THEN conjunct2] i1 by (simp only:)
  from st cur one two show ?thesis by blast
qed

section \<open>Facts about the maps\<close>

lemma map_get_set: "map_get (map_set m k v) k' = (if k' = k then Some v else map_get m k')"
  by (simp add: map_get_def map_set_def update_conv')

lemma map_get_delete: "map_get (map_delete m k) k' = (if k' = k then None else map_get m k')"
  by (simp add: map_get_def map_delete_def delete_conv')

lemma map_keys_set:
  "map fst (map_set m k v) = (if map_has m k then map fst m else map fst m @ [k])"
  by (simp add: map_set_def map_has_def update_keys map_of_eq_None_iff)

lemma map_has_set: "map_has (map_set m k v) k' \<longleftrightarrow> k' = k \<or> map_has m k'"
  by (simp add: map_has_def map_set_def update_conv')

lemma map_has_delete: "map_has (map_delete m k) k' \<longleftrightarrow> k' \<noteq> k \<and> map_has m k'"
  by (simp add: map_has_def map_delete_def delete_conv')

lemma list_all_update:
  "list_all P al \<Longrightarrow> P (k, v) \<Longrightarrow> list_all P (AList.update k v al)"
  by (induction al) auto

lemma list_all_delete: "list_all P al \<Longrightarrow> list_all P (AList.delete k al)"
  by (simp add: AList.delete_eq list_all_iff)

lemma update_mem: "(k, v) \<in> set (AList.update k v al)"
  by (induction al) auto

lemma delete_nonempty:
  assumes "2 \<le> card (fst ` set al)"
  shows "AList.delete k al \<noteq> []"
proof -
  have "\<exists>x\<in>fst ` set al. x \<noteq> k"
  proof (rule ccontr)
    assume "\<not> (\<exists>x\<in>fst ` set al. x \<noteq> k)"
    then have "fst ` set al \<subseteq> {k}" by auto
    then have "card (fst ` set al) \<le> card {k}" by (intro card_mono) simp_all
    with assms show False by simp
  qed
  then obtain x v where "(x, v) \<in> set al" "x \<noteq> k" by auto
  then have "(x, v) \<in> set (AList.delete k al)"
    by (auto simp: AList.delete_eq)
  then show ?thesis by auto
qed

lemma length_pos: "Suc 0 \<le> length xs \<longleftrightarrow> xs \<noteq> []"
  by (cases xs) simp_all

lemma find_hd_filter: "filter P xs \<noteq> [] \<Longrightarrow> find P xs = Some (hd (filter P xs))"
  by (induction xs) auto

section \<open>Facts about the array helpers\<close>

lemma findIndex_Some:
  "findIndex P xs = Some i \<Longrightarrow> i < length xs \<and> P (xs ! i) \<and> (\<forall>j<i. \<not> P (xs ! j))"
proof (induction xs arbitrary: i)
  case Nil
  then show ?case by simp
next
  case (Cons x xs)
  show ?case
  proof (cases "P x")
    case True
    with Cons.prems show ?thesis by simp
  next
    case False
    with Cons.prems obtain k where k: "findIndex P xs = Some k" "i = Suc k"
      by (auto split: option.splits)
    from Cons.IH [OF k(1)] False k(2) show ?thesis
      by (auto simp: less_Suc_eq_0_disj)
  qed
qed

lemma findIndex_None: "findIndex P xs = None \<longleftrightarrow> (\<forall>x\<in>set xs. \<not> P x)"
  by (induction xs) (auto split: option.splits)

lemma findIndex_find: "findIndex P xs = None \<longleftrightarrow> find P xs = None"
  by (auto simp: findIndex_None find_None_iff)

lemma findIndex_map: "findIndex P (map f xs) = findIndex (\<lambda>x. P (f x)) xs"
  by (induction xs) simp_all

lemma remove1_single: "count_list xs x \<le> 1 \<Longrightarrow> x \<notin> set (remove1 x xs)"
  by (induction xs) (auto simp: count_list_0_iff split: if_splits)

section \<open>The turn counter\<close>

text \<open>
  Claim C8 as stated fails: \<open>resetTurns\<close> and \<open>setTurn\<close> lower the counter. In a
  room whose counter is 5, \<open>resetTurns\<close> leaves 0 and \<open>setTurn\<close> to team 1 leaves 1.
\<close>

theorem turn_counter_counterexample:
  "currentTurn room_playing = 5
   \<and> currentTurn (resetTurns room_playing) = 0
   \<and> currentTurn (setTurn room_playing 1) = 1"
  by (simp add: room_playing_def resetTurns_def setTurn_def red_def blue_def)

text \<open>
  Claim C8, amended. \<open>lockTurn\<close> and \<open>unlockTurn\<close> leave the counter unchanged;
  \<open>advanceTurn\<close> raises it by exactly one in a started room and leaves a room that has
  not started as it is. \<open>resetTurns\<close> and \<open>initializeTurns\<close> set it to 0, and
  \<open>setTurn\<close> sets it to the index of the first team with the given id (an index below
  the team count), or leaves the room as it is when no team has that id; so these three
  can lower it. No operation changes the team list, and with a non-empty team list the
  current team after each operation is the team at index counter mod team count, which
  is a valid index.
\<close>

theorem turn_counter_operations:
  "currentTurn (lockTurn r) = currentTurn r
   \<and> currentTurn (unlockTurn r) = currentTurn r
   \<and> (gameStarted r \<longrightarrow> currentTurn (snd (advanceTurn r)) = currentTurn r + 1)
   \<and> (\<not> gameStarted r \<longrightarrow> snd (advanceTurn r) = r)
   \<and> currentTurn (resetTurns r) = 0
   \<and> currentTurn (initializeTurns r) = 0
   \<and> (findIndex (\<lambda>t. id_t t = tid) (teams r) = Some i \<longrightarrow>
        currentTurn (setTurn r tid) = i \<and> i < length (teams r) \<and> id_t (teams r ! i) = tid)
   \<and> (findIndex (\<lambda>t. id_t t = tid) (teams r) = None \<longrightarrow> setTurn r tid = r)
   \<and> (r' \<in> {lockTurn r, unlockTurn r, snd (advanceTurn r), resetTurns r,
              initializeTurns r, setTurn r tid} \<longrightarrow>
        teams r' = teams r
        \<and> (teams r \<noteq> [] \<longrightarrow>
             currentTurn r' mod length (teams r) < length (teams r)
             \<and> getCurrentTeam r' = Some (teams r ! (currentTurn r' mod length (teams r)))))"
proof -
  have adv: "gameStarted r \<longrightarrow> currentTurn (snd (advanceTurn r)) = currentTurn r + 1"
    by (simp add: advanceTurn_room)
  have adv0: "\<not> gameStarted r \<longrightarrow> snd (advanceTurn r) = r"
    by (simp add: advanceTurn_def)
  have st: "findIndex (\<lambda>t. id_t t = tid) (teams r) = Some i \<longrightarrow>
        currentTurn (setTurn r tid) = i \<and> i < length (teams r) \<and> id_t (teams r ! i) = tid"
    using findIndex_Some [of "\<lambda>t. id_t t = tid" "teams r" i] by (simp add: setTurn_def)
  have st0: "findIndex (\<lambda>t. id_t t = tid) (teams r) = None \<longrightarrow> setTurn r tid = r"
    by (simp add: setTurn_def)
  have tadv: "teams (snd (advanceTurn r)) = teams r"
  proof (cases "gameStarted r")
    case True
    then show ?thesis by (simp add: advanceTurn_room)
  next
    case False
    then show ?thesis by (simp add: advanceTurn_def)
  qed
  have tset: "teams (setTurn r tid) = teams r"
    by (simp add: setTurn_def split: option.splits)
  have ts: "r' \<in> {lockTurn r, unlockTurn r, snd (advanceTurn r), resetTurns r,
              initializeTurns r, setTurn r tid} \<longrightarrow> teams r' = teams r"
    using tadv tset by (auto simp: lockTurn_def unlockTurn_def resetTurns_def initializeTurns_def)
  have cur: "teams r' = teams r \<longrightarrow> teams r \<noteq> [] \<longrightarrow>
             currentTurn r' mod length (teams r) < length (teams r)
             \<and> getCurrentTeam r' = Some (teams r ! (currentTurn r' mod length (teams r)))"
    by (simp add: getCurrentTeam_def)
  have fin: "r' \<in> {lockTurn r, unlockTurn r, snd (advanceTurn r), resetTurns r,
              initializeTurns r, setTurn r tid} \<longrightarrow>
        teams r' = teams r
        \<and> (teams r \<noteq> [] \<longrightarrow>
             currentTurn r' mod length (teams r) < length (teams r)
             \<and> getCurrentTeam r' = Some (teams r ! (currentTurn r' mod length (teams r))))"
    using ts cur by blast
  have lk: "currentTurn (lockTurn r) = currentTurn r"
    and ul: "currentTurn (unlockTurn r) = currentTurn r"
    and rs: "currentTurn (resetTurns r) = 0"
    and ini: "currentTurn (initializeTurns r) = 0"
    by (simp_all add: lockTurn_def unlockTurn_def resetTurns_def initializeTurns_def)
  from lk ul adv adv0 rs ini st st0 fin show ?thesis
    by blast
qed


theorem turn_counter_operations_witness:
  "gameStarted room_playing
   \<and> currentTurn (snd (advanceTurn room_playing)) = 6
   \<and> findIndex (\<lambda>t. id_t t = 1) (teams room_playing) = Some 1
   \<and> currentTurn (setTurn room_playing 1) = 1
   \<and> teams (setTurn room_playing 1) = [red, blue]
   \<and> getCurrentTeam (setTurn room_playing 1) = Some blue
   \<and> findIndex (\<lambda>t. id_t t = 7) (teams room_playing) = None
   \<and> setTurn room_playing 7 = room_playing
   \<and> \<not> gameStarted room_lobby
   \<and> snd (advanceTurn room_lobby) = room_lobby"
proof -
  have st: "gameStarted room_playing" and k: "currentTurn room_playing = 5"
    and ts: "teams room_playing = [red, blue]"
    by (simp_all add: room_playing_def)
  have f1: "findIndex (\<lambda>t. id_t t = 1) (teams room_playing) = Some 1"
    and f7: "findIndex (\<lambda>t. id_t t = 7) (teams room_playing) = None"
    by (simp_all add: ts red_def blue_def)
  note a = turn_counter_operations
    [of room_playing 1 1 "setTurn room_playing 1"]
  note b = turn_counter_operations
    [of room_playing 7 0 "setTurn room_playing 7"]
  have "currentTurn (snd (advanceTurn room_playing)) = currentTurn room_playing + 1"
    using a st by blast
  then have adv: "currentTurn (snd (advanceTurn room_playing)) = 6"
    by (simp add: k)
  have c1: "currentTurn (setTurn room_playing 1) = 1"
    using a f1 by blast
  have "teams (setTurn room_playing 1) = teams room_playing"
    using a by blast
  then have t1: "teams (setTurn room_playing 1) = [red, blue]"
    by (simp add: ts)
  have ne: "teams room_playing \<noteq> []"
    by (simp add: ts)
  have "getCurrentTeam (setTurn room_playing 1) =
      Some (teams room_playing ! (currentTurn (setTurn room_playing 1) mod length (teams room_playing)))"
    using a ne by blast
  moreover have "teams room_playing ! (1 mod length (teams room_playing)) = blue"
    by code_simp
  ultimately have g1: "getCurrentTeam (setTurn room_playing 1) = Some blue"
    by (simp only: c1)
  have s7: "setTurn room_playing 7 = room_playing"
    using b f7 by blast
  have nst: "\<not> gameStarted room_lobby"
    by (simp add: room_lobby_def)
  have a0: "snd (advanceTurn room_lobby) = room_lobby"
    using turn_counter_operations [of room_lobby 0 0 room_lobby] nst by blast
  from st adv f1 c1 t1 g1 f7 s7 nst a0 show ?thesis by blast
qed

section \<open>Reassigning a player\<close>

text \<open>
  Claim C10 as stated, for every team list, fails where a member list names the
  connection id twice: \<open>indexOf\<close> and \<open>splice\<close> take out the first occurrence only,
  so after the failed call the player is still a member.
\<close>

theorem reassignPlayer_duplicate_counterexample:
  "getTeamById [red_twice] 9 = None
   \<and> reassignPlayer [] [red_twice] ''s1'' 9 =
       (Failed ''Team not found'', [], [red_twice\<lparr>players_t := [''s1'']\<rparr>])
   \<and> getPlayerTeam [red_twice\<lparr>players_t := [''s1'']\<rparr>] ''s1''
       = Some (red_twice\<lparr>players_t := [''s1'']\<rparr>)"
  by (simp add: red_twice_def reassignPlayer_def getTeamById_def getPlayerTeam_def)

text \<open>
  Claim C10, amended. When the target team id is absent from the list,
  \<open>reassignPlayer\<close> returns the failure result \<open>Team not found\<close>, leaves the registry
  untouched, and has already removed the first occurrence of the connection id from
  every team's member list. When no member list names the id more than once, the
  player is left belonging to no team (\<open>getPlayerTeam\<close> finds none). The membership
  the player had before the call is not restored: if some team listed the player, the
  team list after the call differs from the one before.
\<close>

theorem reassignPlayer_not_atomic:
  assumes "getTeamById ts newTeamId = None"
  shows "reassignPlayer reg ts sid newTeamId =
           (Failed ''Team not found'', reg,
            map (\<lambda>t. t\<lparr>players_t := remove1 sid (players_t t)\<rparr>) ts)
    \<and> ((\<forall>t\<in>set ts. count_list (players_t t) sid \<le> 1) \<longrightarrow>
          (\<forall>t\<in>set (snd (snd (reassignPlayer reg ts sid newTeamId))). sid \<notin> set (players_t t))
          \<and> getPlayerTeam (snd (snd (reassignPlayer reg ts sid newTeamId))) sid = None)
    \<and> ((\<exists>t\<in>set ts. sid \<in> set (players_t t)) \<longrightarrow>
          snd (snd (reassignPlayer reg ts sid newTeamId)) \<noteq> ts)"
proof -
  let ?ts1 = "map (\<lambda>t. t\<lparr>players_t := remove1 sid (players_t t)\<rparr>) ts"
  have "findIndex (\<lambda>t. id_t t = newTeamId) ts = None"
    using assms by (simp add: getTeamById_def findIndex_find)
  then have none: "findIndex (\<lambda>t. id_t t = newTeamId) ?ts1 = None"
    by (simp add: findIndex_map)
  have res: "reassignPlayer reg ts sid newTeamId = (Failed ''Team not found'', reg, ?ts1)"
    unfolding reassignPlayer_def Let_def using none by simp
  have gone: "(\<forall>t\<in>set ts. count_list (players_t t) sid \<le> 1) \<longrightarrow>
      (\<forall>t\<in>set ?ts1. sid \<notin> set (players_t t)) \<and> getPlayerTeam ?ts1 sid = None"
  proof
    assume one: "\<forall>t\<in>set ts. count_list (players_t t) sid \<le> 1"
    have "\<forall>t\<in>set ts. sid \<notin> set (remove1 sid (players_t t))"
    proof
      fix t assume "t \<in> set ts"
      with one have "count_list (players_t t) sid \<le> 1" by simp
      then show "sid \<notin> set (remove1 sid (players_t t))" by (rule remove1_single)
    qed
    then show "(\<forall>t\<in>set ?ts1. sid \<notin> set (players_t t)) \<and> getPlayerTeam ?ts1 sid = None"
      by (simp add: getPlayerTeam_def find_None_iff)
  qed
  have changed: "(\<exists>t\<in>set ts. sid \<in> set (players_t t)) \<longrightarrow> ?ts1 \<noteq> ts"
  proof
    assume "\<exists>t\<in>set ts. sid \<in> set (players_t t)"
    then obtain t where t: "t \<in> set ts" "sid \<in> set (players_t t)" by blast
    show "?ts1 \<noteq> ts"
    proof
      assume "?ts1 = ts"
      then have "map players_t ?ts1 = map players_t ts" by simp
      then have "\<forall>u\<in>set ts. remove1 sid (players_t u) = players_t u"
        by (simp add: comp_def)
      with t have "remove1 sid (players_t t) = players_t t" by blast
      then have "length (remove1 sid (players_t t)) = length (players_t t)" by simp
      moreover have "length (remove1 sid (players_t t)) = length (players_t t) - 1"
        using t(2) by (simp add: length_remove1)
      moreover have "0 < length (players_t t)"
        using t(2) by (rule length_pos_if_in_set)
      ultimately show False by linarith
    qed
  qed
  from res gone changed show ?thesis by simp
qed

theorem reassignPlayer_not_atomic_witness:
  "getTeamById [red, blue] 9 = None
   \<and> reassignPlayer [(''s2'', bob)] [red, blue] ''s2'' 9 =
       (Failed ''Team not found'', [(''s2'', bob)], [red, blue\<lparr>players_t := []\<rparr>])
   \<and> getPlayerTeam [red, blue] ''s2'' = Some blue
   \<and> getPlayerTeam [red, blue\<lparr>players_t := []\<rparr>] ''s2'' = None
   \<and> snd (snd (reassignPlayer [(''s2'', bob)] [red, blue] ''s2'' 9)) \<noteq> [red, blue]
   \<and> getPlayer [(''s2'', bob)] ''s2'' = Some bob \<and> teamId bob = Some 1"
proof -
  have h: "getTeamById [red, blue] 9 = None"
    by (simp add: getTeamById_def red_def blue_def)
  have one: "\<forall>t\<in>set [red, blue]. count_list (players_t t) ''s2'' \<le> 1"
    by (simp add: red_def blue_def)
  have mem: "\<exists>t\<in>set [red, blue]. ''s2'' \<in> set (players_t t)"
    by (simp add: red_def blue_def)
  have m: "map (\<lambda>t. t\<lparr>players_t := remove1 ''s2'' (players_t t)\<rparr>) [red, blue]
      = [red, blue\<lparr>players_t := []\<rparr>]"
    by (simp add: red_def blue_def)
  note r = reassignPlayer_not_atomic [OF h, of "[(''s2'', bob)]" "''s2''"]
  have res: "reassignPlayer [(''s2'', bob)] [red, blue] ''s2'' 9 =
       (Failed ''Team not found'', [(''s2'', bob)], [red, blue\<lparr>players_t := []\<rparr>])"
    using r [THEN conjunct1] m by simp
  have after: "getPlayerTeam [red, blue\<lparr>players_t := []\<rparr>] ''s2'' = None"
    using r [THEN conjunct2, THEN conjunct1] one res by simp
  have before: "getPlayerTeam [red, blue] ''s2'' = Some blue"
    by (simp add: getPlayerTeam_def red_def blue_def)
  have reg: "getPlayer [(''s2'', bob)] ''s2'' = Some bob \<and> teamId bob = Some 1"
    by (simp add: getPlayer_def map_get_def bob_def)
  have diff: "snd (snd (reassignPlayer [(''s2'', bob)] [red, blue] ''s2'' 9)) \<noteq> [red, blue]"
    using r [THEN conjunct2, THEN conjunct2] mem by blast
  from h res before after diff reg show ?thesis by blast
qed

section \<open>Registering a player\<close>

text \<open>
  Claim C6 as stated fails. \<open>createPlayer\<close> for a connection id that is already
  registered does not return the existing record: it builds a new one with a newly
  drawn player id and no team or room, and stores it in place of the old one.
\<close>

theorem createPlayer_overwrites_counterexample:
  "getPlayer [(''s2'', bob)] ''s2'' = Some bob
   \<and> createPlayer [(''s2'', bob)] ''q1w2e3r4'' ''t5y6u7i8'' 9 ''s2'' None =
      (\<lparr>id_p = ''q1w2e3r4'', socketId = ''s2'', username = ''Player-t5y6'',
        teamId = None, isConnected = True, connectedAt = 9, roomId = None\<rparr>,
       [(''s2'', \<lparr>id_p = ''q1w2e3r4'', socketId = ''s2'', username = ''Player-t5y6'',
        teamId = None, isConnected = True, connectedAt = 9, roomId = None\<rparr>)])
   \<and> fst (createPlayer [(''s2'', bob)] ''q1w2e3r4'' ''t5y6u7i8'' 9 ''s2'' None) \<noteq> bob"
  by (simp add: createPlayer_def Let_def getPlayer_def map_get_def map_set_def bob_def)

text \<open>
  Claim C6, amended. For every registry and every connection id, registered or not,
  \<open>createPlayer\<close> returns a new record: the player id is the one the id generator
  returns, the connection id is the given one, there is no team and no room, the
  player is connected, \<open>connectedAt\<close> is the clock reading, and the username is the
  given one or, when none or an empty one is given, \<open>Player-\<close> followed by the first
  four characters of a second generated id. The record is stored under the connection
  id and every other entry of the registry is as before. For an already registered
  connection id the new record replaces the existing one at its place in the registry,
  and it differs from the existing record whenever that one has another player id, a
  team, a room, is disconnected or has another connection time.
\<close>

theorem createPlayer_fresh_record:
  "id_p (fst (createPlayer reg newId nameId now sid uname)) = newId
   \<and> socketId (fst (createPlayer reg newId nameId now sid uname)) = sid
   \<and> teamId (fst (createPlayer reg newId nameId now sid uname)) = None
   \<and> roomId (fst (createPlayer reg newId nameId now sid uname)) = None
   \<and> isConnected (fst (createPlayer reg newId nameId now sid uname))
   \<and> connectedAt (fst (createPlayer reg newId nameId now sid uname)) = now
   \<and> (uname = None \<or> uname = Some [] \<longrightarrow>
        username (fst (createPlayer reg newId nameId now sid uname)) = ''Player-'' @ take 4 nameId)
   \<and> (uname = Some u \<and> u \<noteq> [] \<longrightarrow>
        username (fst (createPlayer reg newId nameId now sid uname)) = u)
   \<and> getPlayer (snd (createPlayer reg newId nameId now sid uname)) sid =
       Some (fst (createPlayer reg newId nameId now sid uname))
   \<and> (s \<noteq> sid \<longrightarrow>
        getPlayer (snd (createPlayer reg newId nameId now sid uname)) s = getPlayer reg s)
   \<and> (getPlayer reg sid = Some old \<longrightarrow>
        map fst (snd (createPlayer reg newId nameId now sid uname)) = map fst reg
        \<and> (id_p old \<noteq> newId \<or> teamId old \<noteq> None \<or> roomId old \<noteq> None
             \<or> \<not> isConnected old \<or> connectedAt old \<noteq> now \<longrightarrow>
             fst (createPlayer reg newId nameId now sid uname) \<noteq> old))"
proof -
  have "map_has reg sid" if "getPlayer reg sid = Some old"
    using that by (simp add: getPlayer_def map_has_def map_get_def)
  then show ?thesis
    by (auto simp: createPlayer_def Let_def getPlayer_def map_get_set map_keys_set)
qed

theorem createPlayer_fresh_record_witness:
  "getPlayer [(''s3'', carol), (''s2'', bob)] ''s2'' = Some bob
   \<and> id_p bob = ''m4n8p1cd'' \<and> teamId bob = Some 1
   \<and> id_p (fst (createPlayer [(''s3'', carol), (''s2'', bob)] ''q1w2e3r4'' ''t5y6u7i8'' 9 ''s2'' None))
       = ''q1w2e3r4''
   \<and> teamId (fst (createPlayer [(''s3'', carol), (''s2'', bob)] ''q1w2e3r4'' ''t5y6u7i8'' 9 ''s2'' None))
       = None
   \<and> username (fst (createPlayer [(''s3'', carol), (''s2'', bob)] ''q1w2e3r4'' ''t5y6u7i8'' 9 ''s2'' None))
       = ''Player-t5y6''
   \<and> username (fst (createPlayer [(''s3'', carol), (''s2'', bob)] ''q1w2e3r4'' ''t5y6u7i8'' 9 ''s2'' (Some ''Bob'')))
       = ''Bob''
   \<and> fst (createPlayer [(''s3'', carol), (''s2'', bob)] ''q1w2e3r4'' ''t5y6u7i8'' 9 ''s2'' None) \<noteq> bob
   \<and> getPlayer (snd (createPlayer [(''s3'', carol), (''s2'', bob)] ''q1w2e3r4'' ''t5y6u7i8'' 9 ''s2'' None)) ''s3''
       = Some carol
   \<and> map fst (snd (createPlayer [(''s3'', carol), (''s2'', bob)] ''q1w2e3r4'' ''t5y6u7i8'' 9 ''s2'' None))
       = [''s3'', ''s2'']"
proof -
  let ?reg = "[(''s3'', carol), (''s2'', bob)]"
  have old: "getPlayer ?reg ''s2'' = Some bob" and oc: "getPlayer ?reg ''s3'' = Some carol"
    by (simp_all add: getPlayer_def map_get_def)
  have b: "id_p bob = ''m4n8p1cd''" "teamId bob = Some 1"
    by (simp_all add: bob_def)
  note a = createPlayer_fresh_record
    [of ?reg "''q1w2e3r4''" "''t5y6u7i8''" 9 "''s2''" None "''Bob''" "''s3''" bob]
  note c = createPlayer_fresh_record
    [of ?reg "''q1w2e3r4''" "''t5y6u7i8''" 9 "''s2''" "Some ''Bob''" "''Bob''" "''s3''" bob]
  have 1: "id_p (fst (createPlayer ?reg ''q1w2e3r4'' ''t5y6u7i8'' 9 ''s2'' None)) = ''q1w2e3r4''"
    using a by blast
  have 2: "teamId (fst (createPlayer ?reg ''q1w2e3r4'' ''t5y6u7i8'' 9 ''s2'' None)) = None"
    using a by blast
  have "username (fst (createPlayer ?reg ''q1w2e3r4'' ''t5y6u7i8'' 9 ''s2'' None))
      = ''Player-'' @ take 4 ''t5y6u7i8''"
    using a by blast
  then have 3: "username (fst (createPlayer ?reg ''q1w2e3r4'' ''t5y6u7i8'' 9 ''s2'' None))
      = ''Player-t5y6''"
    by simp
  have ne: "''Bob'' \<noteq> []" by simp
  have 4: "username (fst (createPlayer ?reg ''q1w2e3r4'' ''t5y6u7i8'' 9 ''s2'' (Some ''Bob''))) = ''Bob''"
    using c ne by blast
  have 5: "fst (createPlayer ?reg ''q1w2e3r4'' ''t5y6u7i8'' 9 ''s2'' None) \<noteq> bob"
    using a old b(2) by auto
  have s: "''s3'' \<noteq> ''s2''" by simp
  have 6: "getPlayer (snd (createPlayer ?reg ''q1w2e3r4'' ''t5y6u7i8'' 9 ''s2'' None)) ''s3'' = Some carol"
    using a s oc by simp
  have "map fst (snd (createPlayer ?reg ''q1w2e3r4'' ''t5y6u7i8'' 9 ''s2'' None)) = map fst ?reg"
    using a old by blast
  then have 7: "map fst (snd (createPlayer ?reg ''q1w2e3r4'' ''t5y6u7i8'' 9 ''s2'' None)) = [''s3'', ''s2'']"
    by simp
  from old b 1 2 3 4 5 6 7 show ?thesis by blast
qed

section \<open>Creating a room\<close>

lemma createRoom_fresh:
  "\<not> map_has rooms (gen n) \<Longrightarrow>
   createRoom gen n now rooms h =
     Some (newRoom (gen n) h now, map_set rooms (gen n) (newRoom (gen n) h now))"
  by (subst createRoom.simps) simp

lemma createRoom_collision:
  "map_has rooms (gen n) \<Longrightarrow>
   createRoom gen n now rooms h = createRoom gen (Suc n) now rooms h"
  by (subst createRoom.simps) simp

lemma createRoom_after_collisions:
  "(\<forall>i<k. map_has rooms (gen (n + i))) \<Longrightarrow>
   createRoom gen n now rooms h = createRoom gen (n + k) now rooms h"
proof (induction k arbitrary: n)
  case 0
  show ?case by simp
next
  case (Suc k)
  from Suc.prems have "map_has rooms (gen (n + 0))" by blast
  then have "createRoom gen n now rooms h = createRoom gen (Suc n) now rooms h"
    by (simp add: createRoom_collision)
  moreover have "\<forall>i<k. map_has rooms (gen (Suc n + i))"
  proof (intro allI impI)
    fix i assume "i < k"
    then have "Suc i < Suc k" by simp
    with Suc.prems have "map_has rooms (gen (n + Suc i))" by blast
    then show "map_has rooms (gen (Suc n + i))" by simp
  qed
  ultimately show ?case using Suc.IH [of "Suc n"] by simp
qed

lemma createRoom_Some:
  assumes "createRoom gen n now rooms h = Some y"
  shows "\<exists>k. (\<forall>i<k. map_has rooms (gen (n + i))) \<and> \<not> map_has rooms (gen (n + k))
     \<and> y = (newRoom (gen (n + k)) h now, map_set rooms (gen (n + k)) (newRoom (gen (n + k)) h now))"
proof -
  define P where "P = (\<lambda>(gen :: nat \<Rightarrow> room_code) (n :: nat) (now :: nat) (rooms :: store) h y.
    \<exists>k. (\<forall>i<k. map_has rooms (gen (n + i))) \<and> \<not> map_has rooms (gen (n + k))
     \<and> y = (newRoom (gen (n + k)) h now,
            map_set rooms (gen (n + k)) (newRoom (gen (n + k)) h now)))"
  have "P gen n now rooms h y"
  proof (rule createRoom.raw_induct [where P = P, OF _ assms])
    fix cr :: "(nat \<Rightarrow> room_code) \<Rightarrow> nat \<Rightarrow> nat \<Rightarrow> store \<Rightarrow> socket_id \<Rightarrow> (room \<times> store) option"
    fix gen n now rooms h y
    assume ih: "\<And>g n now rooms h y. cr g n now rooms h = Some y \<Longrightarrow> P g n now rooms h y"
    assume eq: "(if map_has rooms (gen n) then cr gen (n + 1) now rooms h
      else Some (newRoom (gen n) h now, map_set rooms (gen n) (newRoom (gen n) h now))) = Some y"
    show "P gen n now rooms h y"
    proof (cases "map_has rooms (gen n)")
      case False
      with eq have "y = (newRoom (gen n) h now, map_set rooms (gen n) (newRoom (gen n) h now))"
        by simp
      with False have "(\<forall>i<0. map_has rooms (gen (n + i))) \<and> \<not> map_has rooms (gen (n + 0))
        \<and> y = (newRoom (gen (n + 0)) h now,
            map_set rooms (gen (n + 0)) (newRoom (gen (n + 0)) h now))"
        by simp
      then show ?thesis unfolding P_def by (rule exI)
    next
      case True
      with eq have "cr gen (n + 1) now rooms h = Some y" by simp
      then have "P gen (n + 1) now rooms h y" by (rule ih)
      then obtain k where
        k: "\<forall>i<k. map_has rooms (gen (n + 1 + i))" "\<not> map_has rooms (gen (n + 1 + k))"
          "y = (newRoom (gen (n + 1 + k)) h now,
                map_set rooms (gen (n + 1 + k)) (newRoom (gen (n + 1 + k)) h now))"
        unfolding P_def by blast
      have "\<forall>i<Suc k. map_has rooms (gen (n + i))"
      proof (intro allI impI)
        fix i assume i: "i < Suc k"
        show "map_has rooms (gen (n + i))"
        proof (cases i)
          case 0
          with True show ?thesis by simp
        next
          case (Suc j)
          with i k(1) have "map_has rooms (gen (n + 1 + j))" by simp
          with Suc show ?thesis by simp
        qed
      qed
      with k(2,3) have "(\<forall>i<Suc k. map_has rooms (gen (n + i)))
        \<and> \<not> map_has rooms (gen (n + Suc k))
        \<and> y = (newRoom (gen (n + Suc k)) h now,
            map_set rooms (gen (n + Suc k)) (newRoom (gen (n + Suc k)) h now))"
        by simp
      then show ?thesis unfolding P_def by (rule exI)
    qed
  qed
  then show ?thesis unfolding P_def .
qed

lemma createRoom_None:
  assumes "\<forall>i. map_has rooms (gen (n + i))"
  shows "createRoom gen n now rooms h = None"
proof (cases "createRoom gen n now rooms h")
  case None
  then show ?thesis .
next
  case (Some y)
  from createRoom_Some [OF this] assms show ?thesis by blast
qed

text \<open>
  Claim C5 as stated fails: there is no bound on the retries and no failure result.
  With a generator that returns the code of a stored room at every draw, \<open>createRoom\<close>
  calls itself again after each draw and returns nothing.
\<close>

theorem createRoom_unbounded_counterexample:
  "roomExists [(''ABC234'', newRoom ''ABC234'' ''s1'' 0)] ''ABC234''
   \<and> always_ABC234 0 = ''ABC234'' \<and> always_ABC234 1 = ''ABC234''
   \<and> createRoom always_ABC234 0 1 [(''ABC234'', newRoom ''ABC234'' ''s1'' 0)] ''s9'' = None"
proof -
  have "\<forall>i. map_has [(''ABC234'', newRoom ''ABC234'' ''s1'' 0)] (always_ABC234 (0 + i))"
    by (simp add: always_ABC234_def map_has_def)
  then have "createRoom always_ABC234 0 1 [(''ABC234'', newRoom ''ABC234'' ''s1'' 0)] ''s9'' = None"
    by (rule createRoom_None)
  then show ?thesis by (simp add: map_has_def roomExists_def always_ABC234_def)
qed

text \<open>
  Claim C5, amended. \<open>createRoom\<close> retries on every collision, without a bound: when
  the first \<open>k\<close> draws are codes of stored rooms and the next draw is not, it returns
  after \<open>k\<close> retries with a new room under that code, for every \<open>k\<close>; when every draw
  collides it never returns, and it has no failure result. On success the code of the
  new room was not in the store before, the store now holds the new room under it, the
  new room has the caller as host and no members, and every other code maps to what it
  mapped to before.
\<close>

theorem createRoom_retries:
  "((\<forall>i<k. map_has rooms (gen (n + i))) \<and> \<not> map_has rooms (gen (n + k)) \<longrightarrow>
      createRoom gen n now rooms h =
        Some (newRoom (gen (n + k)) h now,
              map_set rooms (gen (n + k)) (newRoom (gen (n + k)) h now)))
   \<and> ((\<forall>i. map_has rooms (gen (n + i))) \<longrightarrow> createRoom gen n now rooms h = None)
   \<and> (createRoom gen n now rooms h = Some (r, rooms') \<longrightarrow>
        \<not> roomExists rooms (id_r r) \<and> getRoom rooms' (id_r r) = Some r
        \<and> players_r r = [] \<and> hostSocketId r = h
        \<and> (c \<noteq> id_r r \<longrightarrow> getRoom rooms' c = getRoom rooms c))"
proof -
  have a: "(\<forall>i<k. map_has rooms (gen (n + i))) \<and> \<not> map_has rooms (gen (n + k)) \<longrightarrow>
      createRoom gen n now rooms h =
        Some (newRoom (gen (n + k)) h now,
              map_set rooms (gen (n + k)) (newRoom (gen (n + k)) h now))"
  proof
    assume h: "(\<forall>i<k. map_has rooms (gen (n + i))) \<and> \<not> map_has rooms (gen (n + k))"
    then have "createRoom gen n now rooms h = createRoom gen (n + k) now rooms h"
      by (intro createRoom_after_collisions) blast
    also have "\<dots> = Some (newRoom (gen (n + k)) h now,
              map_set rooms (gen (n + k)) (newRoom (gen (n + k)) h now))"
      using h by (intro createRoom_fresh) blast
    finally show "createRoom gen n now rooms h =
        Some (newRoom (gen (n + k)) h now,
              map_set rooms (gen (n + k)) (newRoom (gen (n + k)) h now))" .
  qed
  have b: "(\<forall>i. map_has rooms (gen (n + i))) \<longrightarrow> createRoom gen n now rooms h = None"
    using createRoom_None by blast
  have c: "createRoom gen n now rooms h = Some (r, rooms') \<longrightarrow>
        \<not> roomExists rooms (id_r r) \<and> getRoom rooms' (id_r r) = Some r
        \<and> players_r r = [] \<and> hostSocketId r = h
        \<and> (c \<noteq> id_r r \<longrightarrow> getRoom rooms' c = getRoom rooms c)"
  proof
    assume "createRoom gen n now rooms h = Some (r, rooms')"
    from createRoom_Some [OF this] obtain j where
      j: "\<not> map_has rooms (gen (n + j))" "r = newRoom (gen (n + j)) h now"
        "rooms' = map_set rooms (gen (n + j)) r"
      by auto
    have idr: "id_r r = gen (n + j)" using j(2) by (simp add: newRoom_def)
    show "\<not> roomExists rooms (id_r r) \<and> getRoom rooms' (id_r r) = Some r
        \<and> players_r r = [] \<and> hostSocketId r = h
        \<and> (c \<noteq> id_r r \<longrightarrow> getRoom rooms' c = getRoom rooms c)"
      using j(1) by (simp add: idr roomExists_def getRoom_def j(3) map_get_set)
        (simp add: j(2) newRoom_def)
  qed
  from a b c show ?thesis by blast
qed

theorem createRoom_retries_witness:
  "map_has store_empty_room (example_codes 0) \<and> map_has store_empty_room (example_codes 1)
   \<and> \<not> map_has store_empty_room (example_codes 2)
   \<and> createRoom example_codes 0 5 store_empty_room ''s9'' =
       Some (newRoom ''XYZ789'' ''s9'' 5,
             map_set store_empty_room ''XYZ789'' (newRoom ''XYZ789'' ''s9'' 5))
   \<and> createRoom always_ABC234 0 5 store_empty_room ''s9'' = None
   \<and> \<not> roomExists store_empty_room ''XYZ789''
   \<and> getRoom (map_set store_empty_room ''XYZ789'' (newRoom ''XYZ789'' ''s9'' 5)) ''ABC234''
       = getRoom store_empty_room ''ABC234''"
proof -
  have c0: "map_has store_empty_room (example_codes 0)"
    and c1: "map_has store_empty_room (example_codes 1)"
    and c2: "\<not> map_has store_empty_room (example_codes 2)"
    by (simp_all add: store_empty_room_def example_codes_def map_has_def)
  have coll: "\<forall>i<2. map_has store_empty_room (example_codes (0 + i))"
    by (simp add: store_empty_room_def example_codes_def map_has_def)
  have fresh: "\<not> map_has store_empty_room (example_codes (0 + 2))"
    by (simp add: store_empty_room_def example_codes_def map_has_def)
  have e2: "example_codes (0 + 2) = ''XYZ789''"
    by (simp add: example_codes_def)
  note t = createRoom_retries [of 2 store_empty_room example_codes 0 5 "''s9''"
      "newRoom ''XYZ789'' ''s9'' 5"
      "map_set store_empty_room ''XYZ789'' (newRoom ''XYZ789'' ''s9'' 5)" "''ABC234''"]
  have r1: "createRoom example_codes 0 5 store_empty_room ''s9'' =
       Some (newRoom ''XYZ789'' ''s9'' 5,
             map_set store_empty_room ''XYZ789'' (newRoom ''XYZ789'' ''s9'' 5))"
    using t [THEN conjunct1] coll fresh unfolding e2 by blast
  have idr: "id_r (newRoom ''XYZ789'' ''s9'' 5) = ''XYZ789''"
    by (simp add: newRoom_def)
  have ne: "''ABC234'' \<noteq> id_r (newRoom ''XYZ789'' ''s9'' 5)"
    by (simp add: newRoom_def)
  have r3: "\<not> roomExists store_empty_room ''XYZ789''
    \<and> getRoom (map_set store_empty_room ''XYZ789'' (newRoom ''XYZ789'' ''s9'' 5)) ''ABC234''
       = getRoom store_empty_room ''ABC234''"
    using t [THEN conjunct2, THEN conjunct2] r1 ne unfolding idr by blast
  have always: "\<forall>i. map_has store_empty_room (always_ABC234 (0 + i))"
    by (simp add: store_empty_room_def always_ABC234_def map_has_def)
  have r2: "createRoom always_ABC234 0 5 store_empty_room ''s9'' = None"
    using createRoom_retries [of 0 store_empty_room always_ABC234 0 5 "''s9''",
        THEN conjunct2, THEN conjunct1] always
    by blast
  from c0 c1 c2 r1 r2 r3 show ?thesis by blast
qed

section \<open>Rooms and their members\<close>

lemma rooms_populated_set:
  "rooms_populated rooms \<Longrightarrow> map_size (players_r r) \<ge> 1 \<Longrightarrow>
   rooms_populated (map_set rooms rid r)"
  by (simp add: rooms_populated_def map_set_def list_all_update)

lemma rooms_populated_delete:
  "rooms_populated rooms \<Longrightarrow> rooms_populated (map_delete rooms rid)"
  by (simp add: rooms_populated_def map_delete_def list_all_delete)

lemma rooms_populated_addPlayerToRoom:
  "rooms_populated rooms \<Longrightarrow> rooms_populated (snd (addPlayerToRoom rooms rid p))"
  by (auto simp: addPlayerToRoom_def Let_def map_size_def map_set_def length_pos
      intro!: rooms_populated_set [unfolded map_set_def map_size_def]
      split: option.splits)

lemma rooms_populated_removePlayerFromRoom:
  "rooms_populated rooms \<Longrightarrow> rooms_populated (snd (removePlayerFromRoom rooms rid sid))"
  by (auto simp: removePlayerFromRoom_def Let_def deleteRoom_def map_size_def length_pos
      intro!: rooms_populated_set [unfolded map_size_def] rooms_populated_delete
      split: option.splits)

lemma rooms_populated_startGame:
  "rooms_populated rooms \<Longrightarrow> rooms_populated (snd (startGame rooms rid))"
  by (auto simp: startGame_def Let_def map_size_def MIN_PLAYERS_TO_START_def
      intro!: rooms_populated_set [unfolded map_size_def]
      split: option.splits)

lemma removePlayerFromRoom_last:
  assumes "getRoom rooms rid = Some r" and "map_delete (players_r r) sid = []"
  shows "removePlayerFromRoom rooms rid sid =
      (Removed True (r\<lparr>players_r := [],
          teams := map (\<lambda>t. t\<lparr>players_t := remove1 sid (players_t t)\<rparr>) (teams r)\<rparr>),
       deleteRoom rooms rid)"
  using assms by (simp add: removePlayerFromRoom_def Let_def map_size_def)

lemma createRoom_then_add:
  assumes pop: "rooms_populated rooms"
    and cr: "createRoom gen n now rooms h = Some (r0, rooms0)"
  shows "\<not> rooms_populated rooms0
    \<and> fst (addPlayerToRoom rooms0 (id_r r0) p) = RoomOk (r0\<lparr>players_r := [(socketId p, p)]\<rparr>)
    \<and> rooms_populated (snd (addPlayerToRoom rooms0 (id_r r0) p))"
proof -
  from createRoom_Some [OF cr] obtain k where
    r0: "r0 = newRoom (gen (n + k)) h now" and rooms0: "rooms0 = map_set rooms (gen (n + k)) r0"
    by auto
  have idr: "id_r r0 = gen (n + k)" and pl: "players_r r0 = []" and ns: "\<not> gameStarted r0"
    by (simp_all add: r0 newRoom_def)
  have mem: "(gen (n + k), r0) \<in> set rooms0"
    by (simp add: rooms0 map_set_def update_mem)
  have a: "\<not> rooms_populated rooms0"
  proof
    assume "rooms_populated rooms0"
    then have "\<forall>x\<in>set rooms0. map_size (players_r (snd x)) \<ge> 1"
      by (simp add: rooms_populated_def list_all_iff case_prod_beta)
    with mem have "map_size (players_r r0) \<ge> 1" by fastforce
    with pl show False by (simp add: map_size_def)
  qed
  have g: "getRoom rooms0 (id_r r0) = Some r0"
    by (simp add: getRoom_def rooms0 idr map_get_set)
  have add: "addPlayerToRoom rooms0 (id_r r0) p =
      (RoomOk (r0\<lparr>players_r := [(socketId p, p)]\<rparr>),
       map_set rooms (gen (n + k)) (r0\<lparr>players_r := [(socketId p, p)]\<rparr>))"
    using g ns pl
    by (simp add: addPlayerToRoom_def Let_def map_size_def MAX_PLAYERS_PER_ROOM_def
        map_set_def rooms0 idr)
  have "rooms_populated (map_set rooms (gen (n + k)) (r0\<lparr>players_r := [(socketId p, p)]\<rparr>))"
    using pop by (rule rooms_populated_set) (simp add: map_size_def)
  with a add show ?thesis by simp
qed

text \<open>
  Claim C3 as stated fails: \<open>createRoom\<close> is a store operation and it stores a room
  with no members. From the empty store it leaves a stored room whose member map has
  size 0.
\<close>

theorem createRoom_empty_room_counterexample:
  "rooms_populated []
   \<and> createRoom always_ABC234 0 0 [] ''s1'' =
       Some (newRoom ''ABC234'' ''s1'' 0, [(''ABC234'', newRoom ''ABC234'' ''s1'' 0)])
   \<and> roomExists [(''ABC234'', newRoom ''ABC234'' ''s1'' 0)] ''ABC234''
   \<and> map_size (players_r (newRoom ''ABC234'' ''s1'' 0)) = 0
   \<and> \<not> rooms_populated [(''ABC234'', newRoom ''ABC234'' ''s1'' 0)]"
proof -
  have "\<not> map_has [] (always_ABC234 0)"
    by (simp add: map_has_def)
  then have "createRoom always_ABC234 0 0 [] ''s1'' =
      Some (newRoom (always_ABC234 0) ''s1'' 0,
            map_set [] (always_ABC234 0) (newRoom (always_ABC234 0) ''s1'' 0))"
    by (rule createRoom_fresh)
  then show ?thesis
    by (simp add: always_ABC234_def map_set_def rooms_populated_def roomExists_def
        map_has_def map_size_def newRoom_def)
qed

text \<open>
  Claim C3, amended. If every stored room has at least one member, this is still so
  after \<open>addPlayerToRoom\<close>, \<open>removePlayerFromRoom\<close>, \<open>startGame\<close> and \<open>deleteRoom\<close>, with
  any arguments. Removing the only member of a room deletes the room in the same call:
  the result reports the deletion and \<open>roomExists\<close> is false in the store the call
  leaves. \<open>createRoom\<close> alone breaks the invariant, since the room it stores has no
  members; adding a player to the new room, as the create-room handler does next with
  the host, succeeds and restores it.
\<close>

theorem rooms_populated_operations:
  "(rooms_populated rooms \<longrightarrow>
      rooms_populated (snd (addPlayerToRoom rooms rid p))
      \<and> rooms_populated (snd (removePlayerFromRoom rooms rid sid))
      \<and> rooms_populated (snd (startGame rooms rid))
      \<and> rooms_populated (deleteRoom rooms rid))
   \<and> (getRoom rooms rid = Some r \<and> map fst (players_r r) = [sid] \<longrightarrow>
        removePlayerFromRoom rooms rid sid =
          (Removed True (r\<lparr>players_r := [],
              teams := map (\<lambda>t. t\<lparr>players_t := remove1 sid (players_t t)\<rparr>) (teams r)\<rparr>),
           deleteRoom rooms rid)
        \<and> \<not> roomExists (snd (removePlayerFromRoom rooms rid sid)) rid)
   \<and> (rooms_populated rooms \<and> createRoom gen n now rooms h = Some (r0, rooms0) \<longrightarrow>
        \<not> rooms_populated rooms0
        \<and> fst (addPlayerToRoom rooms0 (id_r r0) p) = RoomOk (r0\<lparr>players_r := [(socketId p, p)]\<rparr>)
        \<and> rooms_populated (snd (addPlayerToRoom rooms0 (id_r r0) p)))"
proof -
  have a: "rooms_populated rooms \<longrightarrow>
      rooms_populated (snd (addPlayerToRoom rooms rid p))
      \<and> rooms_populated (snd (removePlayerFromRoom rooms rid sid))
      \<and> rooms_populated (snd (startGame rooms rid))
      \<and> rooms_populated (deleteRoom rooms rid)"
    by (simp add: rooms_populated_addPlayerToRoom rooms_populated_removePlayerFromRoom
        rooms_populated_startGame rooms_populated_delete deleteRoom_def)
  have b: "getRoom rooms rid = Some r \<and> map fst (players_r r) = [sid] \<longrightarrow>
        removePlayerFromRoom rooms rid sid =
          (Removed True (r\<lparr>players_r := [],
              teams := map (\<lambda>t. t\<lparr>players_t := remove1 sid (players_t t)\<rparr>) (teams r)\<rparr>),
           deleteRoom rooms rid)
        \<and> \<not> roomExists (snd (removePlayerFromRoom rooms rid sid)) rid"
  proof
    assume h: "getRoom rooms rid = Some r \<and> map fst (players_r r) = [sid]"
    then obtain v where "players_r r = [(sid, v)]"
      by (cases "players_r r") auto
    then have "map_delete (players_r r) sid = []"
      by (simp add: map_delete_def AList.delete_eq)
    with h have "removePlayerFromRoom rooms rid sid =
          (Removed True (r\<lparr>players_r := [],
              teams := map (\<lambda>t. t\<lparr>players_t := remove1 sid (players_t t)\<rparr>) (teams r)\<rparr>),
           deleteRoom rooms rid)"
      by (intro removePlayerFromRoom_last) simp_all
    then show "removePlayerFromRoom rooms rid sid =
          (Removed True (r\<lparr>players_r := [],
              teams := map (\<lambda>t. t\<lparr>players_t := remove1 sid (players_t t)\<rparr>) (teams r)\<rparr>),
           deleteRoom rooms rid)
        \<and> \<not> roomExists (snd (removePlayerFromRoom rooms rid sid)) rid"
      by (simp add: roomExists_def deleteRoom_def map_has_delete)
  qed
  have c: "rooms_populated rooms \<and> createRoom gen n now rooms h = Some (r0, rooms0) \<longrightarrow>
        \<not> rooms_populated rooms0
        \<and> fst (addPlayerToRoom rooms0 (id_r r0) p) = RoomOk (r0\<lparr>players_r := [(socketId p, p)]\<rparr>)
        \<and> rooms_populated (snd (addPlayerToRoom rooms0 (id_r r0) p))"
    using createRoom_then_add by blast
  from a b c show ?thesis by blast
qed

theorem rooms_populated_operations_witness:
  "rooms_populated [(''XYZ789'', room_solo)]
   \<and> getRoom [(''XYZ789'', room_solo)] ''XYZ789'' = Some room_solo
   \<and> map fst (players_r room_solo) = [''s1'']
   \<and> rooms_populated (snd (addPlayerToRoom [(''XYZ789'', room_solo)] ''XYZ789'' bob))
   \<and> removePlayerFromRoom [(''XYZ789'', room_solo)] ''XYZ789'' ''s1'' =
        (Removed True (room_solo\<lparr>players_r := []\<rparr>), [])
   \<and> \<not> roomExists (snd (removePlayerFromRoom [(''XYZ789'', room_solo)] ''XYZ789'' ''s1'')) ''XYZ789''
   \<and> createRoom always_ABC234 0 0 [(''XYZ789'', room_solo)] ''s2'' =
        Some (newRoom ''ABC234'' ''s2'' 0,
              [(''XYZ789'', room_solo), (''ABC234'', newRoom ''ABC234'' ''s2'' 0)])
   \<and> \<not> rooms_populated [(''XYZ789'', room_solo), (''ABC234'', newRoom ''ABC234'' ''s2'' 0)]
   \<and> rooms_populated (snd (addPlayerToRoom
         [(''XYZ789'', room_solo), (''ABC234'', newRoom ''ABC234'' ''s2'' 0)] ''ABC234'' bob))"
proof -
  let ?st = "[(''XYZ789'', room_solo)]"
  let ?nr = "newRoom ''ABC234'' ''s2'' 0"
  let ?st2 = "[(''XYZ789'', room_solo), (''ABC234'', ?nr)]"
  have pop: "rooms_populated ?st"
    by (simp add: rooms_populated_def room_solo_def map_size_def)
  have g: "getRoom ?st ''XYZ789'' = Some room_solo"
    by (simp add: getRoom_def map_get_def)
  have k: "map fst (players_r room_solo) = [''s1'']"
    by (simp add: room_solo_def)
  have "\<not> map_has ?st (always_ABC234 0)"
    by (simp add: map_has_def always_ABC234_def)
  then have "createRoom always_ABC234 0 0 ?st ''s2'' =
      Some (newRoom (always_ABC234 0) ''s2'' 0,
            map_set ?st (always_ABC234 0) (newRoom (always_ABC234 0) ''s2'' 0))"
    by (rule createRoom_fresh)
  then have cr: "createRoom always_ABC234 0 0 ?st ''s2'' = Some (?nr, ?st2)"
    by (simp add: always_ABC234_def map_set_def)
  have idr: "id_r ?nr = ''ABC234''"
    by (simp add: newRoom_def)
  have tm: "teams room_solo = []"
    by (simp add: room_solo_def)
  note t = rooms_populated_operations
    [of ?st "''XYZ789''" bob "''s1''" room_solo always_ABC234 0 0 "''s2''" ?nr ?st2]
  have 1: "rooms_populated (snd (addPlayerToRoom ?st ''XYZ789'' bob))"
    using t pop by blast
  have "removePlayerFromRoom ?st ''XYZ789'' ''s1'' =
          (Removed True (room_solo\<lparr>players_r := [],
              teams := map (\<lambda>t. t\<lparr>players_t := remove1 ''s1'' (players_t t)\<rparr>) (teams room_solo)\<rparr>),
           deleteRoom ?st ''XYZ789'')"
    using t g k by blast
  then have 2: "removePlayerFromRoom ?st ''XYZ789'' ''s1'' =
        (Removed True (room_solo\<lparr>players_r := []\<rparr>), [])"
    by (simp add: tm deleteRoom_def map_delete_def room_solo_def)
  have 3: "\<not> roomExists (snd (removePlayerFromRoom ?st ''XYZ789'' ''s1'')) ''XYZ789''"
    using t g k by blast
  have 4: "\<not> rooms_populated ?st2"
    using t pop cr by blast
  have "rooms_populated (snd (addPlayerToRoom ?st2 (id_r ?nr) bob))"
    using t pop cr by blast
  then have 5: "rooms_populated (snd (addPlayerToRoom ?st2 ''ABC234'' bob))"
    by (simp only: idr)
  from pop g k 1 2 3 cr 4 5 show ?thesis by blast
qed

text \<open>
  Claim C4. In a room whose member map holds at least two connection ids, removing
  the connection id that the room records as its host leaves at least one member,
  keeps the room in the store, and sets \<open>hostSocketId\<close> to the connection id
  of the first remaining member in insertion order: the first entry of the member map
  whose key is not the removed id. The result is a success that does not ask for
  deletion and carries the room with the new host.
\<close>

theorem removePlayerFromRoom_host_transfer:
  assumes "getRoom rooms rid = Some r"
    and "2 \<le> card (fst ` set (players_r r))"
  defines "rest \<equiv> map_delete (players_r r) (hostSocketId r)"
  defines "r' \<equiv> r\<lparr>players_r := rest,
      teams := map (\<lambda>t. t\<lparr>players_t := remove1 (hostSocketId r) (players_t t)\<rparr>) (teams r),
      hostSocketId := socketId (snd (hd rest))\<rparr>"
  shows "rest \<noteq> []
    \<and> find (\<lambda>(k, p). hostSocketId r \<noteq> k) (players_r r) = Some (hd rest)
    \<and> removePlayerFromRoom rooms rid (hostSocketId r) = (Removed False r', map_set rooms rid r')
    \<and> getRoom (map_set rooms rid r') rid = Some r'
    \<and> hostSocketId r' = socketId (snd (hd (players_r r')))
    \<and> hd (players_r r') \<in> set (players_r r)"
proof -
  have ne: "rest \<noteq> []"
    unfolding rest_def map_delete_def using assms(2) by (rule delete_nonempty)
  then have fnd: "find (\<lambda>(k, p). hostSocketId r \<noteq> k) (players_r r) = Some (hd rest)"
    unfolding rest_def map_delete_def AList.delete_eq by (rule find_hd_filter)
  have res: "removePlayerFromRoom rooms rid (hostSocketId r) =
      (Removed False r', map_set rooms rid r')"
    using assms(1) ne
    by (simp add: removePlayerFromRoom_def Let_def map_size_def map_values_def hd_map
        r'_def rest_def)
  have stored: "getRoom (map_set rooms rid r') rid = Some r'"
    by (simp add: getRoom_def map_get_set)
  have host: "hostSocketId r' = socketId (snd (hd (players_r r')))"
    by (simp add: r'_def)
  have "set rest \<subseteq> set (players_r r)"
    by (auto simp: rest_def map_delete_def AList.delete_eq)
  with ne have "hd rest \<in> set (players_r r)"
    using hd_in_set by blast
  then have hdm: "hd (players_r r') \<in> set (players_r r)"
    by (simp add: r'_def)
  from ne fnd res stored host hdm show ?thesis by blast
qed

theorem removePlayerFromRoom_host_transfer_witness:
  "getRoom [(''ABC234'', room_lobby)] ''ABC234'' = Some room_lobby
   \<and> 2 \<le> card (fst ` set (players_r room_lobby))
   \<and> hostSocketId room_lobby = ''s3''
   \<and> removePlayerFromRoom [(''ABC234'', room_lobby)] ''ABC234'' ''s3'' =
       (Removed False (room_lobby\<lparr>players_r := [(''s2'', bob)], hostSocketId := ''s2''\<rparr>),
        [(''ABC234'', room_lobby\<lparr>players_r := [(''s2'', bob)], hostSocketId := ''s2''\<rparr>)])"
proof -
  let ?st = "[(''ABC234'', room_lobby)]"
  have g: "getRoom ?st ''ABC234'' = Some room_lobby"
    by (simp add: getRoom_def map_get_def)
  have n: "2 \<le> card (fst ` set (players_r room_lobby))"
    and h: "hostSocketId room_lobby = ''s3''"
    by (simp_all add: room_lobby_def)
  have rest: "map_delete (players_r room_lobby) ''s3'' = [(''s2'', bob)]"
    by (simp add: room_lobby_def map_delete_def AList.delete_eq)
  have sb: "socketId bob = ''s2''"
    by (simp add: bob_def)
  have eq: "room_lobby\<lparr>players_r := [(''s2'', bob)],
      teams := map (\<lambda>t. t\<lparr>players_t := remove1 ''s3'' (players_t t)\<rparr>) (teams room_lobby),
      hostSocketId := ''s2''\<rparr>
    = room_lobby\<lparr>players_r := [(''s2'', bob)], hostSocketId := ''s2''\<rparr>"
    by (simp add: room_lobby_def)
  have "removePlayerFromRoom ?st ''ABC234'' (hostSocketId room_lobby) =
      (Removed False
        (room_lobby\<lparr>players_r := map_delete (players_r room_lobby) (hostSocketId room_lobby),
           teams := map (\<lambda>t. t\<lparr>players_t := remove1 (hostSocketId room_lobby) (players_t t)\<rparr>)
             (teams room_lobby),
           hostSocketId := socketId (snd (hd (map_delete (players_r room_lobby) (hostSocketId room_lobby))))\<rparr>),
       map_set ?st ''ABC234''
        (room_lobby\<lparr>players_r := map_delete (players_r room_lobby) (hostSocketId room_lobby),
           teams := map (\<lambda>t. t\<lparr>players_t := remove1 (hostSocketId room_lobby) (players_t t)\<rparr>)
             (teams room_lobby),
           hostSocketId := socketId (snd (hd (map_delete (players_r room_lobby) (hostSocketId room_lobby))))\<rparr>))"
    using removePlayerFromRoom_host_transfer [OF g n] by blast
  then have "removePlayerFromRoom ?st ''ABC234'' ''s3'' =
       (Removed False (room_lobby\<lparr>players_r := [(''s2'', bob)], hostSocketId := ''s2''\<rparr>),
        [(''ABC234'', room_lobby\<lparr>players_r := [(''s2'', bob)], hostSocketId := ''s2''\<rparr>)])"
    unfolding h rest by (simp add: sb eq map_set_def)
  with g n h show ?thesis by blast
qed

section \<open>Balancing the teams\<close>

lemma teamSizes_nth: "i < length ts \<Longrightarrow> teamSizes ts ! i = length (players_t (ts ! i))"
  by (simp add: teamSizes_def)

lemma Min_teamSizes:
  assumes "ts \<noteq> []"
  shows "Min (set (teamSizes ts)) = teamSizes ts ! hd (sortedTeams ts)"
proof (rule Min_eqI)
  show "finite (set (teamSizes ts))" by simp
  have b: "hd (sortedTeams ts) < length ts"
    using assms by (rule sortedTeams_props)
  then show "teamSizes ts ! hd (sortedTeams ts) \<in> set (teamSizes ts)"
    by (simp add: teamSizes_def)
  fix y assume "y \<in> set (teamSizes ts)"
  then obtain i where i: "i < length ts" "y = teamSizes ts ! i"
    by (auto simp: in_set_conv_nth teamSizes_def)
  with sortedTeams_props(4) [OF assms] b show "teamSizes ts ! hd (sortedTeams ts) \<le> y"
    by (simp add: teamSizes_nth)
qed

lemma Max_teamSizes:
  assumes "ts \<noteq> []"
  shows "Max (set (teamSizes ts)) = teamSizes ts ! last (sortedTeams ts)"
proof (rule Max_eqI)
  show "finite (set (teamSizes ts))" by simp
  have b: "last (sortedTeams ts) < length ts"
    using assms by (rule sortedTeams_props)
  then show "teamSizes ts ! last (sortedTeams ts) \<in> set (teamSizes ts)"
    by (simp add: teamSizes_def)
  fix y assume "y \<in> set (teamSizes ts)"
  then obtain i where i: "i < length ts" "y = teamSizes ts ! i"
    by (auto simp: in_set_conv_nth teamSizes_def)
  with sortedTeams_props(5) [OF assms] b show "y \<le> teamSizes ts ! last (sortedTeams ts)"
    by (simp add: teamSizes_nth)
qed

lemma size_gap_sorted:
  assumes "ts \<noteq> []"
  shows "size_gap ts = length (players_t (ts ! last (sortedTeams ts)))
    - length (players_t (ts ! hd (sortedTeams ts)))"
  using assms sortedTeams_props(2,3) [OF assms]
  by (simp add: size_gap_def Min_teamSizes Max_teamSizes teamSizes_nth)

lemma isBalanced_gap:
  assumes "ts \<noteq> []"
  shows "isBalanced ts \<longleftrightarrow> size_gap ts \<le> 1"
proof -
  from assms have "Min (set (teamSizes ts)) \<le> Max (set (teamSizes ts))"
    by (simp add: teamSizes_def)
  with assms show ?thesis by (auto simp: isBalanced_def size_gap_def)
qed

lemma balance_pass_Throws: "balance_pass reg ts = Throws e \<longleftrightarrow> ts = [] \<and> e = TypeError"
proof (cases "ts = []")
  case True
  then show ?thesis by (auto simp: balance_pass_def sortedTeams_def)
next
  case False
  then have "sortedTeams ts \<noteq> []" by (rule sortedTeams_props)
  with False show ?thesis by (simp add: balance_pass_def Let_def)
qed

lemma balance_pass_Returns:
  assumes "ts \<noteq> []"
  shows "balance_pass reg ts = Returns \<longleftrightarrow> size_gap ts \<le> 1"
proof -
  have "sortedTeams ts \<noteq> []" using assms by (rule sortedTeams_props)
  then show ?thesis
    by (auto simp: balance_pass_def Let_def size_gap_sorted [OF assms])
qed

lemma balance_pass_total:
  assumes "balance_pass reg ts = Recurses reg' ts'"
  shows "sum_list (teamSizes ts') = sum_list (teamSizes ts)" and "length ts' = length ts"
proof -
  let ?si = "hd (sortedTeams ts)" and ?li = "last (sortedTeams ts)"
  let ?xs = "teamSizes ts"
  note s = balance_pass_sizes [OF assms]
  from s(4) have neq: "?li \<noteq> ?si" by auto
  have 1: "sum_list (?xs[?li := ?xs ! ?li - 1]) + ?xs ! ?li = sum_list ?xs + (?xs ! ?li - 1)"
    using sum_list_update_nat [of ?li ?xs "?xs ! ?li - 1"] s(3) by simp
  have "sum_list (?xs[?li := ?xs ! ?li - 1, ?si := ?xs ! ?si + 1]) + (?xs[?li := ?xs ! ?li - 1]) ! ?si
      = sum_list (?xs[?li := ?xs ! ?li - 1]) + (?xs ! ?si + 1)"
    using sum_list_update_nat [of ?si "?xs[?li := ?xs ! ?li - 1]" "?xs ! ?si + 1"] s(2) by simp
  then have 2: "sum_list (?xs[?li := ?xs ! ?li - 1, ?si := ?xs ! ?si + 1]) + ?xs ! ?si
      = sum_list (?xs[?li := ?xs ! ?li - 1]) + (?xs ! ?si + 1)"
    using neq s(2) by simp
  from 1 2 s(4) have "sum_list (?xs[?li := ?xs ! ?li - 1, ?si := ?xs ! ?si + 1]) = sum_list ?xs"
    by linarith
  then show "sum_list (teamSizes ts') = sum_list (teamSizes ts)"
    by (simp only: s(1))
  show "length ts' = length ts"
    by (simp add: balance_pass_Recurses(3) [OF assms])
qed

lemma balance_pass_gap:
  assumes "balance_pass reg ts = Recurses reg' ts'"
  shows "size_gap ts' \<le> size_gap ts" and "1 < size_gap ts"
proof -
  let ?si = "hd (sortedTeams ts)" and ?li = "last (sortedTeams ts)"
  let ?xs = "teamSizes ts" and ?ys = "teamSizes ts'"
  note s = balance_pass_sizes [OF assms]
  have ne: "ts \<noteq> []" using assms by (rule balance_pass_Recurses)
  then have ne': "ts' \<noteq> []" using balance_pass_total(2) [OF assms] by auto
  have mn: "Min (set ?xs) = ?xs ! ?si" and mx: "Max (set ?xs) = ?xs ! ?li"
    using ne by (simp_all add: Min_teamSizes Max_teamSizes)
  from s(4) show "1 < size_gap ts"
    by (simp add: size_gap_def mn mx)
  have sub: "set ?ys \<subseteq> insert (?xs ! ?si + 1) (insert (?xs ! ?li - 1) (set ?xs))"
    unfolding s(1)
    by (meson set_update_subset_insert subset_trans insert_mono)
  have bound: "\<forall>y\<in>set ?ys. ?xs ! ?si \<le> y \<and> y \<le> ?xs ! ?li"
  proof
    fix y assume "y \<in> set ?ys"
    with sub have "y = ?xs ! ?si + 1 \<or> y = ?xs ! ?li - 1 \<or> y \<in> set ?xs" by auto
    moreover have "?xs ! ?si \<le> z \<and> z \<le> ?xs ! ?li" if "z \<in> set ?xs" for z
      using that mn mx by (metis List.finite_set Max_ge Min_le)
    ultimately show "?xs ! ?si \<le> y \<and> y \<le> ?xs ! ?li"
      using s(4) by auto
  qed
  have ys: "set ?ys \<noteq> {}" using ne' by (simp add: teamSizes_def)
  have "Max (set ?ys) \<le> ?xs ! ?li"
    using bound ys by (simp add: Max_le_iff)
  moreover have "?xs ! ?si \<le> Min (set ?ys)"
    using bound ys by (simp add: Min_ge_iff)
  ultimately show "size_gap ts' \<le> size_gap ts"
    by (simp add: size_gap_def mn mx)
qed

lemma balanceTeams_result:
  "ts \<noteq> [] \<Longrightarrow>
   \<exists>reg' ts'. balanceTeams reg ts = Inr (reg', ts') \<and> isBalanced ts'
     \<and> sum_list (teamSizes ts') = sum_list (teamSizes ts) \<and> length ts' = length ts"
proof (induction reg ts rule: balanceTeams.induct)
  case (1 reg ts)
  show ?case
  proof (cases "balance_pass reg ts")
    case (Throws e)
    with "1.prems" show ?thesis by (simp add: balance_pass_Throws)
  next
    case Returns
    with "1.prems" have "isBalanced ts"
      by (simp add: isBalanced_gap balance_pass_Returns)
    with Returns show ?thesis by simp
  next
    case (Recurses reg1 ts1)
    note t = balance_pass_total [OF Recurses]
    from t(2) "1.prems" have "ts1 \<noteq> []" by auto
    from "1.IH" [OF Recurses this] obtain reg' ts' where
      "balanceTeams reg1 ts1 = Inr (reg', ts')" "isBalanced ts'"
      "sum_list (teamSizes ts') = sum_list (teamSizes ts1)" "length ts' = length ts1"
      by blast
    with Recurses t show ?thesis by simp
  qed
qed

lemma balance_moves_bound: "2 * balance_moves reg ts \<le> sum_squares ts"
proof (induction reg ts rule: balance_moves.induct)
  case (1 reg ts)
  show ?case
  proof (cases "balance_pass reg ts")
    case (Recurses reg1 ts1)
    from "1.IH" [OF this] balance_pass_decreases [OF this] Recurses
    show ?thesis by simp
  qed simp_all
qed

lemma balanceTeams_noop:
  assumes "ts \<noteq> []" and "isBalanced ts"
  shows "balanceTeams reg ts = Inr (reg, ts)"
proof -
  from assms have "balance_pass reg ts = Returns"
    by (simp add: isBalanced_gap balance_pass_Returns)
  then show ?thesis by simp
qed

lemma two_team_moves:
  "length (players_t t1) \<le> length (players_t t0) \<Longrightarrow>
   balance_moves reg [t0, t1] = (length (players_t t0) - length (players_t t1)) div 2"
proof (induction "length (players_t t0) - length (players_t t1)" arbitrary: reg t0 t1
    rule: less_induct)
  case less
  let ?a = "length (players_t t0)" and ?b = "length (players_t t1)"
  show ?case
  proof (cases "?b + 1 < ?a")
    case False
    with less.prems have small: "?a - ?b \<le> 1" by simp
    have "size_gap [t0, t1] \<le> 1"
      using less.prems small by (simp add: size_gap_def teamSizes_def)
    then have "balance_pass reg [t0, t1] = Returns"
      by (simp add: balance_pass_Returns)
    with small show ?thesis by simp
  next
    case True
    have st: "sortedTeams [t0, t1] = [1, 0]"
      using True by (simp add: sortedTeams_def upt_rec)
    let ?t0' = "t0\<lparr>players_t := butlast (players_t t0)\<rparr>"
    let ?t1' = "t1\<lparr>players_t := players_t t1 @ [last (players_t t0)]\<rparr>"
    have pass: "balance_pass reg [t0, t1] =
        Recurses (setPlayerTeam reg (last (players_t t0)) (id_t t1)) [?t0', ?t1']"
      using True by (simp add: balance_pass_def st Let_def)
    have le: "length (players_t ?t1') \<le> length (players_t ?t0')" using True by simp
    have lt: "length (players_t ?t0') - length (players_t ?t1') < ?a - ?b" using True by simp
    have "balance_moves (setPlayerTeam reg (last (players_t t0)) (id_t t1)) [?t0', ?t1']
        = (length (players_t ?t0') - length (players_t ?t1')) div 2"
      using lt le by (rule less.hyps)
    then have "balance_moves reg [t0, t1] = Suc ((?a - 1 - (?b + 1)) div 2)"
      using pass by simp
    also have "\<dots> = (?a - ?b) div 2" using True by presburger
    finally show ?thesis .
  qed
qed

text \<open>
  Claim C9 as stated fails in two places. A move need not reduce the size gap: with
  member counts 3, 3, 0, 0 the first move leaves 3, 2, 1, 0, and the gap is 3 before
  and after. And the number of moves is not bounded by a multiple of the team count:
  two teams with 10 and 0 members need 5 moves, and for every constant \<open>c\<close> some
  list of two teams needs more than \<open>2 * c\<close> moves.
\<close>

theorem balanceTeams_gap_counterexample:
  "balance_pass []
     [team_of 0 [''a'', ''b'', ''c''], team_of 1 [''d'', ''e'', ''f''], team_of 2 [], team_of 3 []]
   = Recurses []
     [team_of 0 [''a'', ''b'', ''c''], team_of 1 [''d'', ''e''], team_of 2 [''f''], team_of 3 []]
   \<and> size_gap
     [team_of 0 [''a'', ''b'', ''c''], team_of 1 [''d'', ''e'', ''f''], team_of 2 [], team_of 3 []] = 3
   \<and> size_gap
     [team_of 0 [''a'', ''b'', ''c''], team_of 1 [''d'', ''e''], team_of 2 [''f''], team_of 3 []] = 3
   \<and> length [team_of 0 [''a'', ''b'', ''c'', ''d'', ''e'', ''f'', ''g'', ''h'', ''i'', ''j''],
              team_of 1 []] = 2
   \<and> balance_moves []
        [team_of 0 [''a'', ''b'', ''c'', ''d'', ''e'', ''f'', ''g'', ''h'', ''i'', ''j''],
         team_of 1 []] = 5
   \<and> \<not> (\<exists>c. \<forall>reg ts. balance_moves reg ts \<le> c * length ts)"
proof -
  have 1: "balance_pass []
     [team_of 0 [''a'', ''b'', ''c''], team_of 1 [''d'', ''e'', ''f''], team_of 2 [], team_of 3 []]
   = Recurses []
     [team_of 0 [''a'', ''b'', ''c''], team_of 1 [''d'', ''e''], team_of 2 [''f''], team_of 3 []]"
    by code_simp
  have 2: "size_gap
     [team_of 0 [''a'', ''b'', ''c''], team_of 1 [''d'', ''e'', ''f''], team_of 2 [], team_of 3 []] = 3"
    by (simp add: size_gap_def teamSizes_def team_of_def)
  have 3: "size_gap
     [team_of 0 [''a'', ''b'', ''c''], team_of 1 [''d'', ''e''], team_of 2 [''f''], team_of 3 []] = 3"
    by (simp add: size_gap_def teamSizes_def team_of_def)
  have 4: "balance_moves []
        [team_of 0 [''a'', ''b'', ''c'', ''d'', ''e'', ''f'', ''g'', ''h'', ''i'', ''j''],
         team_of 1 []] = 5"
    by code_simp
  have 5: "\<not> (\<exists>c. \<forall>reg ts. balance_moves reg ts \<le> c * length ts)"
  proof
    assume "\<exists>c. \<forall>reg ts. balance_moves reg ts \<le> c * length ts"
    then obtain c where c: "\<forall>reg ts. balance_moves reg ts \<le> c * length ts" ..
    let ?t0 = "team_of 0 (replicate (2 * (2 * c + 1)) ''a'')"
    let ?t1 = "team_of 1 []"
    have "balance_moves [] [?t0, ?t1] = (length (players_t ?t0) - length (players_t ?t1)) div 2"
      by (rule two_team_moves) (simp add: team_of_def)
    then have "balance_moves [] [?t0, ?t1] = 2 * c + 1"
      by (simp add: team_of_def)
    moreover from c have "balance_moves [] [?t0, ?t1] \<le> c * length [?t0, ?t1]" by blast
    ultimately show False by simp
  qed
  from 1 2 3 4 5 show ?thesis by simp
qed

text \<open>
  Claim C9, amended. \<open>balanceTeams\<close> terminates for every team list: for the empty
  list it throws a TypeError at once, and for a non-empty list it returns teams whose
  largest and smallest member counts differ by at most 1, with the same number of
  teams and of members. A pass returns exactly when the size gap is at most 1;
  otherwise it moves one member from a largest team to a smallest team and repeats.
  Each such move lowers the sum of the squared member counts by at least 2 and never
  widens the size gap, so the number of moves is at most half the sum of the squared
  member counts of the list it starts from.
\<close>

theorem balanceTeams_terminates:
  "(ts = [] \<longrightarrow> balanceTeams reg ts = Inl TypeError)
   \<and> (ts \<noteq> [] \<longrightarrow>
        (\<exists>reg' ts'. balanceTeams reg ts = Inr (reg', ts') \<and> isBalanced ts'
           \<and> sum_list (teamSizes ts') = sum_list (teamSizes ts) \<and> length ts' = length ts))
   \<and> (ts \<noteq> [] \<longrightarrow> (balance_pass reg ts = Returns \<longleftrightarrow> size_gap ts \<le> 1))
   \<and> (balance_pass reg ts = Recurses reg1 ts1 \<longrightarrow>
        1 < size_gap ts
        \<and> teamSizes ts ! last (sortedTeams ts) = Max (set (teamSizes ts))
        \<and> teamSizes ts ! hd (sortedTeams ts) = Min (set (teamSizes ts))
        \<and> teamSizes ts1 = (teamSizes ts)
             [last (sortedTeams ts) := Max (set (teamSizes ts)) - 1,
              hd (sortedTeams ts) := Min (set (teamSizes ts)) + 1]
        \<and> sum_squares ts1 + 2 \<le> sum_squares ts
        \<and> size_gap ts1 \<le> size_gap ts)
   \<and> 2 * balance_moves reg ts \<le> sum_squares ts"
proof -
  have a: "ts = [] \<longrightarrow> balanceTeams reg ts = Inl TypeError"
  proof
    assume "ts = []"
    then have "balance_pass reg ts = Throws TypeError" by (simp add: balance_pass_Throws)
    then show "balanceTeams reg ts = Inl TypeError" by simp
  qed
  have b: "ts \<noteq> [] \<longrightarrow>
        (\<exists>reg' ts'. balanceTeams reg ts = Inr (reg', ts') \<and> isBalanced ts'
           \<and> sum_list (teamSizes ts') = sum_list (teamSizes ts) \<and> length ts' = length ts)"
    using balanceTeams_result by blast
  have c: "ts \<noteq> [] \<longrightarrow> (balance_pass reg ts = Returns \<longleftrightarrow> size_gap ts \<le> 1)"
    using balance_pass_Returns by blast
  have d: "balance_pass reg ts = Recurses reg1 ts1 \<longrightarrow>
        1 < size_gap ts
        \<and> teamSizes ts ! last (sortedTeams ts) = Max (set (teamSizes ts))
        \<and> teamSizes ts ! hd (sortedTeams ts) = Min (set (teamSizes ts))
        \<and> teamSizes ts1 = (teamSizes ts)
             [last (sortedTeams ts) := Max (set (teamSizes ts)) - 1,
              hd (sortedTeams ts) := Min (set (teamSizes ts)) + 1]
        \<and> sum_squares ts1 + 2 \<le> sum_squares ts
        \<and> size_gap ts1 \<le> size_gap ts"
  proof
    assume r: "balance_pass reg ts = Recurses reg1 ts1"
    then have ne: "ts \<noteq> []" by (rule balance_pass_Recurses)
    have mx: "teamSizes ts ! last (sortedTeams ts) = Max (set (teamSizes ts))"
      and mn: "teamSizes ts ! hd (sortedTeams ts) = Min (set (teamSizes ts))"
      using ne by (simp_all add: Min_teamSizes Max_teamSizes)
    have "teamSizes ts1 = (teamSizes ts)
             [last (sortedTeams ts) := Max (set (teamSizes ts)) - 1,
              hd (sortedTeams ts) := Min (set (teamSizes ts)) + 1]"
      using balance_pass_sizes(1) [OF r] by (simp only: mx mn)
    with mx mn balance_pass_gap [OF r] balance_pass_decreases [OF r]
    show "1 < size_gap ts
        \<and> teamSizes ts ! last (sortedTeams ts) = Max (set (teamSizes ts))
        \<and> teamSizes ts ! hd (sortedTeams ts) = Min (set (teamSizes ts))
        \<and> teamSizes ts1 = (teamSizes ts)
             [last (sortedTeams ts) := Max (set (teamSizes ts)) - 1,
              hd (sortedTeams ts) := Min (set (teamSizes ts)) + 1]
        \<and> sum_squares ts1 + 2 \<le> sum_squares ts
        \<and> size_gap ts1 \<le> size_gap ts"
      by blast
  qed
  have e: "2 * balance_moves reg ts \<le> sum_squares ts"
    by (rule balance_moves_bound)
  from a b c d e show ?thesis by blast
qed

theorem balanceTeams_terminates_witness:
  "balanceTeams [] [] = Inl TypeError
   \<and> balanceTeams []
       [team_of 0 [''a'', ''b'', ''c''], team_of 1 [''d'', ''e'', ''f''], team_of 2 [], team_of 3 []]
     = Inr ([], [team_of 0 [''a'', ''b''], team_of 1 [''d'', ''e''], team_of 2 [''f''], team_of 3 [''c'']])
   \<and> isBalanced [team_of 0 [''a'', ''b''], team_of 1 [''d'', ''e''], team_of 2 [''f''], team_of 3 [''c'']]
   \<and> balance_pass []
       [team_of 0 [''a'', ''b'', ''c''], team_of 1 [''d'', ''e'', ''f''], team_of 2 [], team_of 3 []]
     = Recurses []
       [team_of 0 [''a'', ''b'', ''c''], team_of 1 [''d'', ''e''], team_of 2 [''f''], team_of 3 []]
   \<and> sum_squares
       [team_of 0 [''a'', ''b'', ''c''], team_of 1 [''d'', ''e''], team_of 2 [''f''], team_of 3 []] + 2
     \<le> sum_squares
       [team_of 0 [''a'', ''b'', ''c''], team_of 1 [''d'', ''e'', ''f''], team_of 2 [], team_of 3 []]
   \<and> 2 * balance_moves []
       [team_of 0 [''a'', ''b'', ''c''], team_of 1 [''d'', ''e'', ''f''], team_of 2 [], team_of 3 []]
     \<le> 18
   \<and> balance_pass []
       [team_of 0 [''a'', ''b''], team_of 1 [''d'', ''e''], team_of 2 [''f''], team_of 3 [''c'']]
     = Returns"
proof -
  let ?ts = "[team_of 0 [''a'', ''b'', ''c''], team_of 1 [''d'', ''e'', ''f''], team_of 2 [], team_of 3 []]"
  let ?ts1 = "[team_of 0 [''a'', ''b'', ''c''], team_of 1 [''d'', ''e''], team_of 2 [''f''], team_of 3 []]"
  let ?tsF = "[team_of 0 [''a'', ''b''], team_of 1 [''d'', ''e''], team_of 2 [''f''], team_of 3 [''c'']]"
  have ne: "?ts \<noteq> []" and neF: "?tsF \<noteq> []" by simp_all
  have run: "balanceTeams [] ?ts = Inr ([], ?tsF)" by code_simp
  have pass: "balance_pass [] ?ts = Recurses [] ?ts1" by code_simp
  have sq: "sum_squares ?ts = 18" by (simp add: sum_squares_def teamSizes_def team_of_def)
  have gapF: "size_gap ?tsF \<le> 1" by (simp add: size_gap_def teamSizes_def team_of_def)
  have 1: "balanceTeams [] [] = Inl TypeError"
    using balanceTeams_terminates [of "[]" "[]"] by blast
  have "\<exists>reg' ts'. balanceTeams [] ?ts = Inr (reg', ts') \<and> isBalanced ts'
      \<and> sum_list (teamSizes ts') = sum_list (teamSizes ?ts) \<and> length ts' = length ?ts"
    using balanceTeams_terminates [of ?ts "[]"] ne by blast
  then have 2: "isBalanced ?tsF"
    unfolding run by blast
  have 3: "sum_squares ?ts1 + 2 \<le> sum_squares ?ts"
    using balanceTeams_terminates [of ?ts "[]" "[]" ?ts1] pass by blast
  have "2 * balance_moves [] ?ts \<le> sum_squares ?ts"
    using balanceTeams_terminates [of ?ts "[]"] by blast
  then have 4: "2 * balance_moves [] ?ts \<le> 18"
    by (simp only: sq)
  have 5: "balance_pass [] ?tsF = Returns"
    using balanceTeams_terminates [of ?tsF "[]"] neF gapF by blast
  from 1 run 2 pass 3 4 5 show ?thesis by blast
qed

section \<open>Assigning players to teams\<close>

lemma shuffle_loop_mset:
  "k < length xs \<Longrightarrow> mset (shuffle_loop rnd k xs) = mset xs"
proof (induction k arbitrary: xs)
  case 0
  show ?case by simp
next
  case (Suc k)
  let ?j = "rnd (Suc k) mod (Suc k + 1)"
  let ?ys = "xs[Suc k := xs ! ?j, ?j := xs ! Suc k]"
  have "?j < Suc k + 1" by (rule mod_less_divisor) simp
  with Suc.prems have j: "?j < length xs" by linarith
  have "mset ?ys = mset xs"
    using j Suc.prems by (rule mset_swap)
  moreover have "k < length ?ys" using Suc.prems by simp
  ultimately show ?case using Suc.IH [of ?ys] by (simp add: Let_def)
qed

lemma shuffleArray_mset: "mset (shuffleArray rnd xs) = mset xs"
proof (cases "xs = []")
  case True
  then show ?thesis by (simp add: shuffleArray_def)
next
  case False
  then have "length xs - 1 < length xs" by (cases xs) simp_all
  then show ?thesis unfolding shuffleArray_def by (rule shuffle_loop_mset)
qed

lemma getPlayer_setPlayerTeam:
  "getPlayer (setPlayerTeam reg s tid) s' =
     (if s' = s then map_option (\<lambda>p. p\<lparr>teamId := Some tid\<rparr>) (getPlayer reg s)
      else getPlayer reg s')"
  by (simp add: setPlayerTeam_def getPlayer_def map_get_set split: option.splits)

lemma distribute_length:
  "ts \<noteq> [] \<Longrightarrow> length (snd (distribute n ps reg ts)) = length ts"
  by (induction ps arbitrary: n reg ts) (simp_all add: Let_def)

lemma distribute_total:
  "ts \<noteq> [] \<Longrightarrow>
   sum_list (teamSizes (snd (distribute n ps reg ts))) = sum_list (teamSizes ts) + length ps"
proof (induction ps arbitrary: n reg ts)
  case Nil
  show ?case by simp
next
  case (Cons p ps)
  let ?r = "n mod length ts"
  let ?t = "(ts ! ?r)\<lparr>players_t := players_t (ts ! ?r) @ [socketId p]\<rparr>"
  have r: "?r < length ts" using Cons.prems by simp
  have ne: "ts[?r := ?t] \<noteq> []" using Cons.prems by simp
  have "sum_list ((teamSizes ts)[?r := length (players_t ?t)]) + teamSizes ts ! ?r
      = sum_list (teamSizes ts) + length (players_t ?t)"
    using r by (intro sum_list_update_nat) (simp add: teamSizes_def)
  then have "sum_list (teamSizes (ts[?r := ?t])) = sum_list (teamSizes ts) + 1"
    using r by (simp add: teamSizes_update teamSizes_nth)
  with Cons.IH [OF ne] show ?case by (simp add: Let_def)
qed

lemma round_robin_step:
  assumes "ts \<noteq> []" and "round_robin n ts"
  shows "round_robin (Suc n)
    (ts[n mod length ts := (ts ! (n mod length ts))
        \<lparr>players_t := players_t (ts ! (n mod length ts)) @ [s]\<rparr>])"
  unfolding round_robin_def
proof (intro allI impI)
  let ?T = "length ts"
  let ?r = "n mod ?T"
  let ?ts' = "ts[?r := (ts ! ?r)\<lparr>players_t := players_t (ts ! ?r) @ [s]\<rparr>]"
  fix k assume "k < length ?ts'"
  then have k: "k < ?T" by simp
  have T: "0 < ?T" using assms(1) by simp
  then have r: "?r < ?T" by simp
  have old: "length (players_t (ts ! k)) = n div ?T + (if k < ?r then 1 else 0)"
    using assms(2) k by (simp add: round_robin_def)
  have new: "length (players_t (?ts' ! k)) = length (players_t (ts ! k)) + (if k = ?r then 1 else 0)"
    using k by (simp add: nth_list_update)
  show "length (players_t (?ts' ! k)) =
      Suc n div length ?ts' + (if k < Suc n mod length ?ts' then 1 else 0)"
  proof (cases "Suc ?r = ?T")
    case True
    then have "Suc n mod ?T = 0" and "Suc n div ?T = Suc (n div ?T)"
      by (simp_all add: mod_Suc div_Suc)
    moreover from True k have "k < ?r \<or> k = ?r" by auto
    ultimately show ?thesis using old new by auto
  next
    case False
    then have "Suc n mod ?T = Suc ?r" and "Suc n div ?T = n div ?T"
      by (simp_all add: mod_Suc div_Suc)
    then show ?thesis using old new by auto
  qed
qed

lemma distribute_round_robin:
  "ts \<noteq> [] \<Longrightarrow> round_robin n ts \<Longrightarrow>
   round_robin (n + length ps) (snd (distribute n ps reg ts))"
proof (induction ps arbitrary: n reg ts)
  case Nil
  then show ?case by simp
next
  case (Cons p ps)
  let ?r = "n mod length ts"
  let ?ts' = "ts[?r := (ts ! ?r)\<lparr>players_t := players_t (ts ! ?r) @ [socketId p]\<rparr>]"
  have ne: "?ts' \<noteq> []" using Cons.prems(1) by simp
  have "round_robin (Suc n) ?ts'"
    using Cons.prems by (rule round_robin_step)
  from Cons.IH [OF ne this] show ?case by (simp add: Let_def)
qed

lemma round_robin_isBalanced:
  assumes "round_robin n ts"
  shows "isBalanced ts"
proof (cases "ts = []")
  case True
  then show ?thesis by (simp add: isBalanced_def)
next
  case False
  let ?q = "n div length ts"
  have b: "\<forall>y\<in>set (teamSizes ts). ?q \<le> y \<and> y \<le> ?q + 1"
  proof
    fix y assume "y \<in> set (teamSizes ts)"
    then obtain k where "k < length ts" "y = length (players_t (ts ! k))"
      by (auto simp: teamSizes_def in_set_conv_nth)
    with assms show "?q \<le> y \<and> y \<le> ?q + 1"
      by (simp add: round_robin_def)
  qed
  have ne: "set (teamSizes ts) \<noteq> {}" using False by (simp add: teamSizes_def)
  have "Max (set (teamSizes ts)) \<le> ?q + 1"
    using b ne by (simp add: Max_le_iff)
  moreover have "?q \<le> Min (set (teamSizes ts))"
    using b ne by (simp add: Min_ge_iff)
  ultimately show ?thesis by (simp add: isBalanced_def)
qed

lemma distribute_recorded:
  assumes "ts \<noteq> []"
    and "distinct (map socketId ps)"
    and "\<forall>t\<in>set ts. \<forall>p\<in>set ps. socketId p \<notin> set (players_t t)"
    and "\<forall>t\<in>set ts. \<forall>s\<in>set (players_t t). \<forall>q. getPlayer reg s = Some q \<longrightarrow> teamId q = Some (id_t t)"
  shows "\<forall>t\<in>set (snd (distribute n ps reg ts)). \<forall>s\<in>set (players_t t).
    \<forall>q. getPlayer (fst (distribute n ps reg ts)) s = Some q \<longrightarrow> teamId q = Some (id_t t)"
  using assms
proof (induction ps arbitrary: n reg ts)
  case Nil
  then show ?case by simp
next
  case (Cons p ps)
  let ?r = "n mod length ts"
  let ?u = "(ts ! ?r)\<lparr>players_t := players_t (ts ! ?r) @ [socketId p]\<rparr>"
  let ?ts' = "ts[?r := ?u]"
  let ?reg' = "setPlayerTeam reg (socketId p) (id_t (ts ! ?r))"
  have r: "?r < length ts" using Cons.prems(1) by simp
  then have mem: "ts ! ?r \<in> set ts" by simp
  have sub: "set ?ts' \<subseteq> insert ?u (set ts)"
    by (rule set_update_subset_insert)
  have ne: "?ts' \<noteq> []" using Cons.prems(1) by simp
  have d: "distinct (map socketId ps)" and fresh: "socketId p \<notin> socketId ` set ps"
    using Cons.prems(2) by simp_all
  have disj: "\<forall>t\<in>set ?ts'. \<forall>p'\<in>set ps. socketId p' \<notin> set (players_t t)"
  proof (intro ballI)
    fix t p' assume t: "t \<in> set ?ts'" and p': "p' \<in> set ps"
    from t sub have "t = ?u \<or> t \<in> set ts" by auto
    then show "socketId p' \<notin> set (players_t t)"
    proof
      assume "t = ?u"
      moreover have "socketId p' \<notin> set (players_t (ts ! ?r))"
        using Cons.prems(3) mem p' by simp
      moreover have "socketId p' \<noteq> socketId p"
      proof
        assume "socketId p' = socketId p"
        then have "socketId p = socketId p'" by (rule sym)
        then have "socketId p \<in> socketId ` set ps" using p' by (rule image_eqI)
        with fresh show False by (rule notE)
      qed
      ultimately show ?thesis by simp
    next
      assume "t \<in> set ts"
      with Cons.prems(3) p' show ?thesis by simp
    qed
  qed
  have rec: "\<forall>t\<in>set ?ts'. \<forall>s\<in>set (players_t t).
      \<forall>q. getPlayer ?reg' s = Some q \<longrightarrow> teamId q = Some (id_t t)"
  proof (intro ballI allI impI)
    fix t s q
    assume t: "t \<in> set ?ts'" and s: "s \<in> set (players_t t)"
      and q: "getPlayer ?reg' s = Some q"
    from t sub have tcase: "t = ?u \<or> t \<in> set ts" by auto
    show "teamId q = Some (id_t t)"
    proof (cases "s = socketId p")
      case True
      have "t \<notin> set ts"
      proof
        assume "t \<in> set ts"
        with Cons.prems(3) have "socketId p \<notin> set (players_t t)" by simp
        with s True show False by simp
      qed
      with tcase have "t = ?u" by simp
      moreover from q True have "teamId q = Some (id_t (ts ! ?r))"
        by (auto simp: getPlayer_setPlayerTeam)
      ultimately show ?thesis by simp
    next
      case False
      with q have q': "getPlayer reg s = Some q"
        by (simp add: getPlayer_setPlayerTeam)
      from tcase show ?thesis
      proof
        assume u: "t = ?u"
        with s False have "s \<in> set (players_t (ts ! ?r))" by simp
        with Cons.prems(4) mem q' have "teamId q = Some (id_t (ts ! ?r))" by blast
        with u show ?thesis by simp
      next
        assume "t \<in> set ts"
        with Cons.prems(4) s q' show ?thesis by blast
      qed
    qed
  qed
  from Cons.IH [OF ne d disj rec] show ?case by (simp add: Let_def)
qed

lemma distribute_keeps:
  "ts \<noteq> [] \<Longrightarrow> k < length ts \<Longrightarrow>
   set (players_t (ts ! k)) \<subseteq> set (players_t (snd (distribute n ps reg ts) ! k))"
proof (induction ps arbitrary: n reg ts)
  case Nil
  show ?case by simp
next
  case (Cons p ps)
  let ?r = "n mod length ts"
  let ?ts' = "ts[?r := (ts ! ?r)\<lparr>players_t := players_t (ts ! ?r) @ [socketId p]\<rparr>]"
  have ne: "?ts' \<noteq> []" and k: "k < length ?ts'" using Cons.prems by simp_all
  have "set (players_t (ts ! k)) \<subseteq> set (players_t (?ts' ! k))"
    using Cons.prems by (cases "k = ?r") auto
  with Cons.IH [OF ne k] show ?case by (auto simp: Let_def)
qed

lemma distribute_places:
  "ts \<noteq> [] \<Longrightarrow> p \<in> set ps \<Longrightarrow>
   \<exists>t\<in>set (snd (distribute n ps reg ts)). socketId p \<in> set (players_t t)"
proof (induction ps arbitrary: n reg ts)
  case Nil
  then show ?case by simp
next
  case (Cons a ps)
  let ?r = "n mod length ts"
  let ?ts' = "ts[?r := (ts ! ?r)\<lparr>players_t := players_t (ts ! ?r) @ [socketId a]\<rparr>]"
  let ?reg' = "setPlayerTeam reg (socketId a) (id_t (ts ! ?r))"
  have ne: "?ts' \<noteq> []" using Cons.prems(1) by simp
  have r: "?r < length ?ts'" using Cons.prems(1) by simp
  have step: "distribute n (a # ps) reg ts = distribute (n + 1) ps ?reg' ?ts'"
    by (simp add: Let_def)
  show ?case
  proof (cases "p = a")
    case True
    have "socketId a \<in> set (players_t (?ts' ! ?r))"
      using r by simp
    with distribute_keeps [OF ne r, of "n + 1" ps ?reg']
    have "socketId a \<in> set (players_t (snd (distribute (n + 1) ps ?reg' ?ts') ! ?r))"
      by blast
    moreover have "?r < length (snd (distribute (n + 1) ps ?reg' ?ts'))"
      using r ne by (simp add: distribute_length)
    ultimately show ?thesis
      unfolding step True using nth_mem by blast
  next
    case False
    with Cons.prems(2) have "p \<in> set ps" by simp
    from Cons.IH [OF ne this] show ?thesis unfolding step .
  qed
qed

lemma distribute_registered:
  "getPlayer (fst (distribute n ps reg ts)) s = None \<longleftrightarrow> getPlayer reg s = None"
  by (induction ps arbitrary: n reg ts) (simp_all add: Let_def getPlayer_setPlayerTeam)

text \<open>
  Claim C2. For players with distinct connection ids and a non-empty team list,
  whatever the shuffle draws, \<open>assignPlayersToTeams\<close> followed by \<open>balanceTeams\<close>
  returns normally with the same number of teams; the member counts sum to the number
  of players, the largest and the smallest differ by at most 1, every player is on a
  team, and the registry record of every team member that has one names the team
  whose member list contains the player. The registry has a record for exactly the
  connection ids it had before.
\<close>

theorem assign_then_balance:
  assumes "distinct (map socketId (map_values playersMap))" and "ts \<noteq> []"
  shows "\<exists>reg1 ts1 reg2 ts2.
      assignPlayersToTeams rnd reg playersMap ts = Inr (reg1, ts1)
    \<and> balanceTeams reg1 ts1 = Inr (reg2, ts2)
    \<and> length ts2 = length ts
    \<and> sum_list (teamSizes ts2) = map_size playersMap
    \<and> isBalanced ts2
    \<and> (\<forall>t\<in>set ts2. \<forall>s\<in>set (players_t t).
          \<forall>q. getPlayer reg2 s = Some q \<longrightarrow> teamId q = Some (id_t t))
    \<and> (\<forall>p\<in>set (map_values playersMap). \<exists>t\<in>set ts2. socketId p \<in> set (players_t t))
    \<and> (\<forall>s. getPlayer reg2 s = None \<longleftrightarrow> getPlayer reg s = None)"
proof -
  let ?ps = "shuffleArray rnd (map_values playersMap)"
  let ?ts0 = "map (\<lambda>t. t\<lparr>players_t := []\<rparr>) ts"
  let ?res = "distribute 0 ?ps reg ?ts0"
  have ne0: "?ts0 \<noteq> []" using assms(2) by simp
  have ms: "mset ?ps = mset (map_values playersMap)" by (rule shuffleArray_mset)
  then have "mset (map socketId ?ps) = mset (map socketId (map_values playersMap))"
    by simp
  with assms(1) have d: "distinct (map socketId ?ps)"
    using mset_eq_imp_distinct_iff by blast
  have len: "length ?ps = map_size playersMap"
    using ms mset_eq_length by (fastforce simp: map_size_def map_values_def)
  have sets: "set ?ps = set (map_values playersMap)"
    using ms by (rule mset_eq_setD)
  have assign: "assignPlayersToTeams rnd reg playersMap ts = Inr (fst ?res, snd ?res)"
    using ne0 by (simp add: assignPlayersToTeams_def Let_def)
  have l1: "length (snd ?res) = length ts"
    using distribute_length [OF ne0] by simp
  then have ne1: "snd ?res \<noteq> []" using assms(2) by auto
  have "sum_list (teamSizes ?ts0) = 0"
    by (simp add: teamSizes_def)
  then have tot: "sum_list (teamSizes (snd ?res)) = map_size playersMap"
    using distribute_total [OF ne0, of 0 ?ps reg] len by simp
  have "round_robin 0 ?ts0"
    by (simp add: round_robin_def)
  then have "round_robin (0 + length ?ps) (snd ?res)"
    by (rule distribute_round_robin [OF ne0])
  then have bal: "isBalanced (snd ?res)"
    by (rule round_robin_isBalanced)
  then have balance: "balanceTeams (fst ?res) (snd ?res) = Inr (fst ?res, snd ?res)"
    using ne1 by (intro balanceTeams_noop)
  have rec: "\<forall>t\<in>set (snd ?res). \<forall>s\<in>set (players_t t).
      \<forall>q. getPlayer (fst ?res) s = Some q \<longrightarrow> teamId q = Some (id_t t)"
    using ne0 d by (rule distribute_recorded) simp_all
  have placed: "\<forall>p\<in>set (map_values playersMap). \<exists>t\<in>set (snd ?res). socketId p \<in> set (players_t t)"
    using distribute_places [OF ne0] sets by blast
  have dom: "\<forall>s. getPlayer (fst ?res) s = None \<longleftrightarrow> getPlayer reg s = None"
    by (simp add: distribute_registered)
  from assign balance l1 tot bal rec placed dom show ?thesis by blast
qed

theorem assign_then_balance_witness:
  "distinct (map socketId (map_values three_players)) \<and> [red, blue] \<noteq> []
   \<and> assignPlayersToTeams draw_zero three_players three_players [red, blue] =
       Inr ([(''s3'', carol\<lparr>teamId := Some 0\<rparr>), (''s2'', bob\<lparr>teamId := Some 0\<rparr>),
             (''s1'', alice\<lparr>teamId := Some 1\<rparr>)],
            [red\<lparr>players_t := [''s2'', ''s3'']\<rparr>, blue\<lparr>players_t := [''s1'']\<rparr>])
   \<and> balanceTeams
        [(''s3'', carol\<lparr>teamId := Some 0\<rparr>), (''s2'', bob\<lparr>teamId := Some 0\<rparr>),
         (''s1'', alice\<lparr>teamId := Some 1\<rparr>)]
        [red\<lparr>players_t := [''s2'', ''s3'']\<rparr>, blue\<lparr>players_t := [''s1'']\<rparr>] =
       Inr ([(''s3'', carol\<lparr>teamId := Some 0\<rparr>), (''s2'', bob\<lparr>teamId := Some 0\<rparr>),
             (''s1'', alice\<lparr>teamId := Some 1\<rparr>)],
            [red\<lparr>players_t := [''s2'', ''s3'']\<rparr>, blue\<lparr>players_t := [''s1'']\<rparr>])
   \<and> sum_list (teamSizes [red\<lparr>players_t := [''s2'', ''s3'']\<rparr>, blue\<lparr>players_t := [''s1'']\<rparr>]) = 3
   \<and> isBalanced [red\<lparr>players_t := [''s2'', ''s3'']\<rparr>, blue\<lparr>players_t := [''s1'']\<rparr>]"
proof -
  let ?R = "[(''s3'', carol\<lparr>teamId := Some 0\<rparr>), (''s2'', bob\<lparr>teamId := Some 0\<rparr>),
             (''s1'', alice\<lparr>teamId := Some 1\<rparr>)]"
  let ?T = "[red\<lparr>players_t := [''s2'', ''s3'']\<rparr>, blue\<lparr>players_t := [''s1'']\<rparr>]"
  have d: "distinct (map socketId (map_values three_players))"
    by (simp add: three_players_def map_values_def alice_def bob_def carol_def)
  have ne: "[red, blue] \<noteq> []" by simp
  have a: "assignPlayersToTeams draw_zero three_players three_players [red, blue] = Inr (?R, ?T)"
    by code_simp
  have sz: "map_size three_players = 3"
    by (simp add: three_players_def map_size_def)
  from assign_then_balance [OF d ne, of draw_zero three_players]
  obtain reg2 ts2 where
    b: "balanceTeams ?R ?T = Inr (reg2, ts2)"
    and "sum_list (teamSizes ts2) = map_size three_players"
    and "isBalanced ts2"
    unfolding a by blast
  moreover have c: "balanceTeams ?R ?T = Inr (?R, ?T)"
    by code_simp
  ultimately have "sum_list (teamSizes ?T) = 3" and "isBalanced ?T"
    using sz by simp_all
  with d ne a c show ?thesis by blast
qed

end
